theory Spec2Isabelle
  imports Main "HOL-Library.AList"
begin

section \<open>Jib auto sync: the data model of \<open>pkg/skaffold/build/jib/sync.go\<close>\<close>

text \<open>
  A modification time is a \<open>time.Time\<close> as \<open>os.Stat\<close> reports it. The code only
  ever compares two of them with \<open>!=\<close>, so an instant is modelled as an integer
  (nanoseconds) compared with HOL equality.
\<close>

type_synonym Time = int

text \<open>
  Go errors as values. \<open>OSError\<close> stands for an error value produced outside this file
  (by \<open>filepath.Abs\<close>, \<open>os.Stat\<close>, \<open>util.RunCmdOut\<close>, \<open>json.Unmarshal\<close>,
  \<open>DeterminePluginType\<close> or a stand-in for \<open>getSyncMapFunc\<close>); the other
  constructors are the wrappers of \<open>github.com/pkg/errors\<close> that the file applies.
\<close>

datatype error =
    OSError string
  | WithStack error
  | Wrap error string
  | New string
  | Errorf string string

record JSONSyncEntry =
  Src :: string
  JDest :: string

record JSONSyncMap =
  Direct :: "JSONSyncEntry list"
  Generated :: "JSONSyncEntry list"

record SyncEntry =
  Dest :: "string list"
  FileTime :: Time
  IsDirect :: bool

text \<open>
  \<open>type SyncMap map[string]SyncEntry\<close>. A Go map is modelled as an association list
  with one pair per key: \<open>m[k]\<close> is \<open>map_of m k\<close>, \<open>m[k] = v\<close> is
  \<open>AList.update k v m\<close>, \<open>len(m)\<close> is \<open>length m\<close> and a \<open>range\<close> loop visits the
  pairs in the order of the list (Go leaves that order unspecified; the theorems hold
  for every order). The maps returned to the caller have the same representation.
\<close>

type_synonym SyncMap = "(string \<times> SyncEntry) list"

type_synonym CopyMap = "(string \<times> string list) list"

text \<open>\<open>filemon.Events\<close>: three slices of paths.\<close>

record Events =
  Added :: "string list"
  Modified :: "string list"
  Deleted :: "string list"

datatype PluginType = JibMaven | JibGradle | UnknownPlugin

text \<open>
  The \<open>*exec.Cmd\<close> built by \<open>getSyncMapCommandMaven\<close> or \<open>getSyncMapCommandGradle\<close>
  for a workspace and an artifact; the command is only ever handed to \<open>util.RunCmdOut\<close>.
\<close>

datatype 'a Cmd = SyncMapCommandMaven string 'a | SyncMapCommandGradle string 'a

text \<open>
  Everything the file calls but does not define: the functions of the standard library
  and of the other packages of the repository, as they answer during one call.
  \<open>'a\<close> is \<open>latest.JibArtifact\<close> and \<open>'k\<close> is \<open>projectKey\<close>. \<open>Stat\<close> is
  \<open>os.Stat\<close> followed by \<open>ModTime()\<close>.
\<close>

record ('a, 'k) world =
  GetBuildDefinitions :: "string \<Rightarrow> 'a \<Rightarrow> string list"
  getProjectKey :: "string \<Rightarrow> 'a \<Rightarrow> 'k"
  IsAbs :: "string \<Rightarrow> bool"
  Abs :: "string \<Rightarrow> error + string"
  Stat :: "string \<Rightarrow> error + Time"
  DeterminePluginType :: "string \<Rightarrow> 'a \<Rightarrow> error + PluginType"
  RunCmdOut :: "'a Cmd \<Rightarrow> error + string"
  Unmarshal :: "string \<Rightarrow> error + JSONSyncMap"

text \<open>
  What a call leaves behind. \<open>syncLists\<close> is the package variable
  \<open>map[projectKey]SyncMap\<close>. \<open>effects\<close> records, in order, the lines printed with
  \<open>fmt.Println\<close> and every call of \<open>getSyncMapFunc\<close>.

  A \<open>SyncMap\<close> is a reference in Go: \<open>currSyncMap := syncLists[key]\<close> aliases the
  stored map, and \<open>currSyncMap[f] = val\<close> changes the map the store holds. The model
  writes such an assignment through to \<open>syncLists\<close> (\<open>writeBack\<close>). Every map that
  \<open>getSyncMapFunc\<close> returns is taken to be a fresh object, as \<open>getSyncMapFromSystem\<close>
  makes it, so no two keys share one.
\<close>

datatype effect =
    Println string
  | PrintlnMap string SyncMap
  | CalledGetSyncMapFunc

record 'k state =
  syncLists :: "'k \<rightharpoonup> SyncMap"
  effects :: "effect list"

text \<open>The three results \<open>(toCopy, toDelete, err)\<close>; \<open>None\<close> is \<open>nil\<close>.\<close>

type_synonym result = "CopyMap option \<times> CopyMap option \<times> error option"


definition retToDelete :: "result \<Rightarrow> CopyMap option" where
  "retToDelete r = fst (snd r)"

definition retErr :: "result \<Rightarrow> error option" where
  "retErr r = snd (snd r)"

section \<open>\<open>toAbs\<close>\<close>

definition toAbs :: "('a, 'k) world \<Rightarrow> string \<Rightarrow> error + string" where
  "toAbs w f =
     (if \<not> IsAbs w f then
        (case Abs w f of
           Inl e \<Rightarrow> Inl (WithStack e)
         | Inr af \<Rightarrow> Inr af)
      else Inr f)"

section \<open>\<open>GetSyncDiff\<close>\<close>

text \<open>The inner loop of the build-file guard: \<open>for _, bf := range buildFiles\<close>.\<close>

fun isBuildFile :: "string \<Rightarrow> string list \<Rightarrow> bool" where
  "isBuildFile f [] = False"
| "isBuildFile f (bf # bfs) = (if f = bf then True else isBuildFile f bfs)"

datatype guard = GuardError error | Rebuild | Pass

text \<open>The outer loop of the guard, over \<open>e.Modified\<close>.\<close>

fun buildFileGuard :: "('a, 'k) world \<Rightarrow> string list \<Rightarrow> string list \<Rightarrow> guard" where
  "buildFileGuard w buildFiles [] = Pass"
| "buildFileGuard w buildFiles (f # fs) =
     (case toAbs w f of
        Inl e \<Rightarrow> GuardError (WithStack e)
      | Inr f' \<Rightarrow>
          if isBuildFile f' buildFiles then Rebuild
          else buildFileGuard w buildFiles fs)"

text \<open>
  The loop of the direct fast path. It ends with an error, or at a \<open>break\<close> or the end
  of \<open>e.Modified\<close>; in each case the cached map has the file times written so far.
\<close>

datatype loopEnd = LoopError error SyncMap | LoopDone CopyMap SyncMap

fun directLoop :: "('a, 'k) world \<Rightarrow> string list \<Rightarrow> CopyMap \<Rightarrow> SyncMap \<Rightarrow> loopEnd" where
  "directLoop w [] matches currSyncMap = LoopDone matches currSyncMap"
| "directLoop w (f # fs) matches currSyncMap =
     (case toAbs w f of
        Inl e \<Rightarrow> LoopError (WithStack e) currSyncMap
      | Inr f' \<Rightarrow>
          (case map_of currSyncMap f' of
             Some val \<Rightarrow>
               if \<not> IsDirect val then LoopDone matches currSyncMap
               else
                 (case Stat w f' of
                    Inl e \<Rightarrow> LoopError (Wrap e ''could not obtain file mod time'') currSyncMap
                  | Inr t \<Rightarrow>
                      directLoop w fs (AList.update f' (Dest val) matches)
                        (AList.update f' (val\<lparr>FileTime := t\<rparr>) currSyncMap))
           | None \<Rightarrow> LoopDone matches currSyncMap))"

text \<open>The loop that calculates the diff of the sync maps, over \<open>*nextSyncMap\<close>.\<close>

fun diffLoop :: "SyncMap \<Rightarrow> SyncMap \<Rightarrow> CopyMap \<Rightarrow> CopyMap" where
  "diffLoop [] currSyncMap toCopy = toCopy"
| "diffLoop ((k, v) # rest) currSyncMap toCopy =
     (case map_of currSyncMap k of
        Some cur \<Rightarrow>
          if FileTime v \<noteq> FileTime cur
          then diffLoop rest currSyncMap (AList.update k (Dest v) toCopy)
          else diffLoop rest currSyncMap toCopy
      | None \<Rightarrow> diffLoop rest currSyncMap (AList.update k (Dest v) toCopy))"

text \<open>\<open>syncLists[key]\<close>: the \<open>nil\<close> map, which holds nothing, when the key is absent.\<close>

definition cached :: "'k state \<Rightarrow> 'k \<Rightarrow> SyncMap" where
  "cached s key = (case syncLists s key of None \<Rightarrow> [] | Some m \<Rightarrow> m)"

text \<open>
  The effect on the store of the assignments \<open>currSyncMap[f] = val\<close>. An absent key
  gave the \<open>nil\<close> map, in which nothing is found and so nothing is assigned.
\<close>

definition writeBack :: "'k state \<Rightarrow> 'k \<Rightarrow> SyncMap \<Rightarrow> 'k state" where
  "writeBack s key m =
     (case syncLists s key of
        None \<Rightarrow> s
      | Some _ \<Rightarrow> s\<lparr>syncLists := (syncLists s)(key \<mapsto> m)\<rparr>)"

definition println :: "effect \<Rightarrow> 'k state \<Rightarrow> 'k state" where
  "println x s = s\<lparr>effects := effects s @ [x]\<rparr>"

text \<open>
  \<open>getSyncMapFunc\<close> is a package variable (``for testing''), \<open>getSyncMap\<close> unless a
  test replaces it; the model takes its value as the first argument.
\<close>

type_synonym ('a, 'k) syncMapFunc = "('a, 'k) world \<Rightarrow> string \<Rightarrow> 'a \<Rightarrow> error + SyncMap"

text \<open>
  Lines 68 to 118: the build-file guard, the deletion guard and the direct fast path.
  \<open>Inl r\<close> is a \<open>return\<close> of \<open>r\<close>; \<open>Inr currSyncMap\<close> is control reaching line 120
  with that value of the local variable.
\<close>

definition fastPaths ::
  "('a, 'k) world \<Rightarrow> string \<Rightarrow> 'a \<Rightarrow> Events \<Rightarrow> 'k state \<Rightarrow> (result + SyncMap) \<times> 'k state" where
  "fastPaths w workspace a e s =
     (let buildFiles = GetBuildDefinitions w workspace a in
      case buildFileGuard w buildFiles (Modified e) of
        GuardError x \<Rightarrow> (Inl (None, None, Some x), s)
      | Rebuild \<Rightarrow> (Inl (None, None, None), s)
      | Pass \<Rightarrow>
          if length (Deleted e) \<noteq> 0 then
            (Inl (None, None, None),
             println (Println ''Deletions are not supported by jib auto sync at the moment'') s)
          else
            (let key = getProjectKey w workspace a;
                 currSyncMap = cached s key in
             if length (Deleted e) = 0 \<and> length (Added e) = 0 then
               (case directLoop w (Modified e) [] currSyncMap of
                  LoopError x curr' \<Rightarrow> (Inl (None, None, Some x), writeBack s key curr')
                | LoopDone matches curr' \<Rightarrow>
                    if length matches = length (Modified e)
                    then (Inl (Some matches, None, None), writeBack s key curr')
                    else (Inr curr', writeBack s key curr'))
             else (Inr currSyncMap, s)))"

text \<open>Lines 120 to 144: another build, the store of the new sync map, and the diff.\<close>

definition recompute ::
  "('a, 'k) syncMapFunc \<Rightarrow> ('a, 'k) world \<Rightarrow> string \<Rightarrow> 'a \<Rightarrow> SyncMap \<Rightarrow> 'k state \<Rightarrow> result \<times> 'k state" where
  "recompute getSyncMapFunc w workspace a currSyncMap s =
     (let s1 = println CalledGetSyncMapFunc s in
      case getSyncMapFunc w workspace a of
        Inl x \<Rightarrow> ((None, None, Some x), s1)
      | Inr nextSyncMap \<Rightarrow>
          (let s2 = s1\<lparr>syncLists := (syncLists s1)(getProjectKey w workspace a \<mapsto> nextSyncMap)\<rparr>;
               s3 = println (PrintlnMap ''curr'' currSyncMap) s2;
               s4 = println (PrintlnMap ''next'' nextSyncMap) s3
           in ((Some (diffLoop nextSyncMap currSyncMap []), None, None), s4)))"

definition GetSyncDiff ::
  "('a, 'k) syncMapFunc \<Rightarrow> ('a, 'k) world \<Rightarrow> string \<Rightarrow> 'a \<Rightarrow> Events \<Rightarrow> 'k state \<Rightarrow> result \<times> 'k state" where
  "GetSyncDiff getSyncMapFunc w workspace a e s =
     (case fastPaths w workspace a e s of
        (Inl r, s') \<Rightarrow> (r, s')
      | (Inr currSyncMap, s') \<Rightarrow> recompute getSyncMapFunc w workspace a currSyncMap s')"

section \<open>\<open>InitSync\<close>\<close>

definition InitSync ::
  "('a, 'k) syncMapFunc \<Rightarrow> ('a, 'k) world \<Rightarrow> string \<Rightarrow> 'a \<Rightarrow> 'k state \<Rightarrow> error option \<times> 'k state" where
  "InitSync getSyncMapFunc w workspace a s =
     (let s1 = println CalledGetSyncMapFunc s in
      case getSyncMapFunc w workspace a of
        Inl x \<Rightarrow> (Some x, s1)
      | Inr syncMap \<Rightarrow>
          (None, s1\<lparr>syncLists := (syncLists s1)(getProjectKey w workspace a \<mapsto> syncMap)\<rparr>))"

section \<open>\<open>getSyncMap\<close> and \<open>getSyncMapFromSystem\<close>\<close>

definition getSyncMapCommand :: "('a, 'k) world \<Rightarrow> string \<Rightarrow> 'a \<Rightarrow> error + 'a Cmd" where
  "getSyncMapCommand w workspace artifact =
     (case DeterminePluginType w workspace artifact of
        Inl x \<Rightarrow> Inl x
      | Inr t \<Rightarrow>
          (case t of
             JibMaven \<Rightarrow> Inr (SyncMapCommandMaven workspace artifact)
           | JibGradle \<Rightarrow> Inr (SyncMapCommandGradle workspace artifact)
           | UnknownPlugin \<Rightarrow>
               Inl (Errorf ''unable to determine Jib builder type for %s'' workspace)))"

text \<open>
  The regular expression \<^verbatim>\<open>BEGIN JIB JSON(?:: SYNCMAP/1)?\r?\n({.*})\<close> as Go's
  \<open>regexp\<close> runs it: the leftmost match, optional parts and \<open>.*\<close> greedy with
  backtracking, and \<open>.\<close> matching every character but the line feed.
  \<open>FindSubmatch\<close> gives the text of the group, or \<open>None\<close> where Go's returns
  \<open>nil\<close>.
\<close>

definition LF :: char where
  "LF = CHR 0x0A"

definition CR :: char where
  "CR = CHR 0x0D"

fun stripPrefix :: "string \<Rightarrow> string \<Rightarrow> string option" where
  "stripPrefix [] s = Some s"
| "stripPrefix (p # ps) [] = None"
| "stripPrefix (p # ps) (c # cs) = (if p = c then stripPrefix ps cs else None)"

text \<open>The longest prefix of a string that ends with the character \<open>c\<close>.\<close>

fun uptoLast :: "char \<Rightarrow> string \<Rightarrow> string option" where
  "uptoLast c [] = None"
| "uptoLast c (x # xs) =
     (case uptoLast c xs of
        Some r \<Rightarrow> Some (x # r)
      | None \<Rightarrow> if x = c then Some [x] else None)"

text \<open>\<^verbatim>\<open>({.*})\<close> at the head of a string.\<close>

definition matchGroup :: "string \<Rightarrow> string option" where
  "matchGroup s =
     (case s of
        [] \<Rightarrow> None
      | c # body \<Rightarrow>
          if c = CHR ''{''
          then map_option (\<lambda>g. c # g) (uptoLast (CHR ''}'') (takeWhile (\<lambda>x. x \<noteq> LF) body))
          else None)"

text \<open>\<^verbatim>\<open>\n({.*})\<close> at the head of a string.\<close>

definition matchLF :: "string \<Rightarrow> string option" where
  "matchLF s = (case s of [] \<Rightarrow> None | c # r \<Rightarrow> if c = LF then matchGroup r else None)"

text \<open>\<^verbatim>\<open>\r?\n({.*})\<close> at the head of a string.\<close>

definition matchNewline :: "string \<Rightarrow> string option" where
  "matchNewline s =
     (case (case s of [] \<Rightarrow> None | c # r \<Rightarrow> if c = CR then matchLF r else None) of
        Some g \<Rightarrow> Some g
      | None \<Rightarrow> matchLF s)"

text \<open>The whole expression at the head of a string.\<close>

definition matchHere :: "string \<Rightarrow> string option" where
  "matchHere s =
     (case stripPrefix ''BEGIN JIB JSON'' s of
        None \<Rightarrow> None
      | Some r \<Rightarrow>
          (case (case stripPrefix '': SYNCMAP/1'' r of
                   Some r' \<Rightarrow> matchNewline r'
                 | None \<Rightarrow> None) of
             Some g \<Rightarrow> Some g
           | None \<Rightarrow> matchNewline r))"

fun FindSubmatch :: "string \<Rightarrow> string option" where
  "FindSubmatch [] = matchHere []"
| "FindSubmatch (c # cs) =
     (case matchHere (c # cs) of
        Some g \<Rightarrow> Some g
      | None \<Rightarrow> FindSubmatch cs)"

text \<open>\<^verbatim>\<open>bytes.Replace(matches[1], []byte(`\`), []byte(`\\`), -1)\<close>.\<close>

fun replaceBackslashes :: "string \<Rightarrow> string" where
  "replaceBackslashes [] = []"
| "replaceBackslashes (c # cs) =
     (if c = CHR 0x5C then c # c # replaceBackslashes cs else c # replaceBackslashes cs)"

text \<open>
  The two loops over \<open>jsm.Direct\<close> and \<open>jsm.Generated\<close>; they differ in the value of
  \<open>IsDirect\<close> only, which is the second argument here.
\<close>

fun statEntries ::
  "('a, 'k) world \<Rightarrow> bool \<Rightarrow> JSONSyncEntry list \<Rightarrow> SyncMap \<Rightarrow> error + SyncMap" where
  "statEntries w direct [] sm = Inr sm"
| "statEntries w direct (de # des) sm =
     (case Stat w (Src de) of
        Inl x \<Rightarrow> Inl (Wrap x ''could not obtain file mod time'')
      | Inr t \<Rightarrow>
          statEntries w direct des
            (AList.update (Src de) \<lparr>Dest = [JDest de], FileTime = t, IsDirect = direct\<rparr> sm))"

definition getSyncMapFromSystem :: "('a, 'k) world \<Rightarrow> 'a Cmd \<Rightarrow> error + SyncMap" where
  "getSyncMapFromSystem w cmd =
     (case RunCmdOut w cmd of
        Inl x \<Rightarrow> Inl (Wrap x ''failed to get Jib sync map'')
      | Inr stdout \<Rightarrow>
          (case FindSubmatch stdout of
             None \<Rightarrow> Inl (New ''failed to get Jib Sync data'')
           | Some group1 \<Rightarrow>
               (let line = replaceBackslashes group1 in
                case Unmarshal w line of
                  Inl x \<Rightarrow> Inl (WithStack x)
                | Inr jsm \<Rightarrow>
                    (case statEntries w True (Direct jsm) [] of
                       Inl x \<Rightarrow> Inl x
                     | Inr sm \<Rightarrow> statEntries w False (Generated jsm) sm))))"

definition getSyncMap :: "('a, 'k) syncMapFunc" where
  "getSyncMap w workspace artifact =
     (case getSyncMapCommand w workspace artifact of
        Inl x \<Rightarrow> Inl (WithStack x)
      | Inr cmd \<Rightarrow>
          (case getSyncMapFromSystem w cmd of
             Inl x \<Rightarrow> Inl (WithStack x)
           | Inr sm \<Rightarrow> Inr sm))"

section \<open>Notions the properties are stated with\<close>

text \<open>
  The language of the regular expression, written out: the marker, with or without
  \<open>: SYNCMAP/1\<close>, the end of the line, and on the next line a brace, any text
  without a line feed, and a closing brace.
\<close>

definition hasSyncData :: "string \<Rightarrow> bool" where
  "hasSyncData out =
     (\<exists>pre suffix eol body post.
        out = pre @ ''BEGIN JIB JSON'' @ suffix @ eol @ ''{'' @ body @ ''}'' @ post \<and>
        (suffix = [] \<or> suffix = '': SYNCMAP/1'') \<and>
        (eol = [LF] \<or> eol = [CR, LF]) \<and>
        LF \<notin> set body)"

text \<open>The last entry of a list of the interpreter's output that names the source \<open>k\<close>.\<close>

definition lastFor :: "string \<Rightarrow> JSONSyncEntry list \<Rightarrow> JSONSyncEntry option" where
  "lastFor k es = find (\<lambda>e. Src e = k) (rev es)"

text \<open>
  An entry \<open>q\<close> of a sync map is the entry \<open>p\<close> but for its file time: the same path,
  destinations and \<open>IsDirect\<close>, and either the same file time or, for a direct entry,
  the time \<open>os.Stat\<close> reports for the path.
\<close>

definition sameButTime ::
  "('a, 'k) world \<Rightarrow> string \<times> SyncEntry \<Rightarrow> string \<times> SyncEntry \<Rightarrow> bool" where
  "sameButTime w p q =
     (fst q = fst p \<and> Dest (snd q) = Dest (snd p) \<and> IsDirect (snd q) = IsDirect (snd p) \<and>
      (FileTime (snd q) = FileTime (snd p) \<or>
       (IsDirect (snd p) \<and> Stat w (fst p) = Inr (FileTime (snd q)))))"

definition refreshOf :: "('a, 'k) world \<Rightarrow> SyncMap \<Rightarrow> SyncMap \<Rightarrow> bool" where
  "refreshOf w m m' = list_all2 (sameButTime w) m m'"

fun endMap :: "loopEnd \<Rightarrow> SyncMap" where
  "endMap (LoopError x m) = m"
| "endMap (LoopDone matches m) = m"

text \<open>
  The direct fast path matches a modified path when the path resolves to a direct entry
  of the cached map whose source can be stat'ed. Refreshing file times does not change
  what is matched.
\<close>

definition matched :: "('a, 'k) world \<Rightarrow> SyncMap \<Rightarrow> string \<Rightarrow> bool" where
  "matched w m f =
     (case toAbs w f of
        Inl x \<Rightarrow> False
      | Inr p \<Rightarrow>
          (case map_of m p of
             None \<Rightarrow> False
           | Some v \<Rightarrow> IsDirect v \<and> (case Stat w p of Inl x \<Rightarrow> False | Inr t \<Rightarrow> True)))"

text \<open>The absolute paths of the paths that resolve.\<close>

fun resolved :: "('a, 'k) world \<Rightarrow> string list \<Rightarrow> string list" where
  "resolved w [] = []"
| "resolved w (f # fs) =
     (case toAbs w f of Inl x \<Rightarrow> resolved w fs | Inr p \<Rightarrow> p # resolved w fs)"

text \<open>
  The entries the direct fast path has matched when it stops: it is tried only past both
  guards and with nothing added, and it goes through \<open>e.Modified\<close> up to the first path
  that it does not match.
\<close>

definition matchedPaths ::
  "('a, 'k) world \<Rightarrow> string \<Rightarrow> 'a \<Rightarrow> Events \<Rightarrow> 'k state \<Rightarrow> string list" where
  "matchedPaths w workspace a e s =
     (if buildFileGuard w (GetBuildDefinitions w workspace a) (Modified e) = Pass \<and>
         Deleted e = [] \<and> Added e = []
      then resolved w
             (takeWhile (matched w (cached s (getProjectKey w workspace a))) (Modified e))
      else [])"

text \<open>An entry, if any, with the file time \<open>os.Stat\<close> reports for the path \<open>k\<close>.\<close>

definition refreshAt :: "('a, 'k) world \<Rightarrow> string \<Rightarrow> SyncEntry option \<Rightarrow> SyncEntry option" where
  "refreshAt w k x =
     (case Stat w k of Inl y \<Rightarrow> x | Inr t \<Rightarrow> map_option (\<lambda>v. v\<lparr>FileTime := t\<rparr>) x)"

text \<open>Every entry of a sync map has exactly one destination.\<close>

definition singleDest :: "SyncMap \<Rightarrow> bool" where
  "singleDest m = (\<forall>(k, v)\<in>set m. \<exists>d. Dest v = [d])"

text \<open>Every sync map in the store has only such entries.\<close>

definition storeSingleDest :: "'k state \<Rightarrow> bool" where
  "storeSingleDest s = (\<forall>key m. syncLists s key = Some m \<longrightarrow> singleDest m)"

text \<open>The calls of \<open>getSyncMapFunc\<close> among the effects a call added to those of \<open>s\<close>.\<close>

definition recomputations :: "'k state \<Rightarrow> 'k state \<Rightarrow> nat" where
  "recomputations s s' =
     length (filter (\<lambda>x. x = CalledGetSyncMapFunc) (drop (length (effects s)) (effects s')))"

text \<open>
  The states the package can be in: \<open>syncLists\<close> starts empty, and \<open>InitSync\<close> and
  \<open>GetSyncDiff\<close> run with \<open>getSyncMapFunc = getSyncMap\<close>, each time in some world of
  \<open>W\<close>, for any workspace, artifact and events.
\<close>

definition initial :: "'k state" where
  "initial = \<lparr>syncLists = Map.empty, effects = []\<rparr>"

inductive reachable :: "('a, 'k) world set \<Rightarrow> 'k state \<Rightarrow> bool" for W :: "('a, 'k) world set" where
  start: "reachable W initial"
| afterInitSync:
    "reachable W s \<Longrightarrow> w \<in> W \<Longrightarrow> reachable W (snd (InitSync getSyncMap w workspace a s))"
| afterGetSyncDiff:
    "reachable W s \<Longrightarrow> w \<in> W \<Longrightarrow> reachable W (snd (GetSyncDiff getSyncMap w workspace a e s))"

section \<open>A workspace to run the functions on\<close>

definition quoted :: "string \<Rightarrow> string" where
  "quoted s = CHR 0x22 # s @ [CHR 0x22]"

definition jsonEntry :: "string \<Rightarrow> string \<Rightarrow> string" where
  "jsonEntry src dst =
     ''{'' @ quoted ''src'' @ '':'' @ quoted src @ '','' @ quoted ''dest'' @ '':'' @ quoted dst @ ''}''"

definition exPayload :: string where
  "exPayload =
     ''{'' @ quoted ''direct'' @ '':['' @ jsonEntry ''/w/A.txt'' ''/c/A.txt'' @ ''],'' @
     quoted ''generated'' @ '':['' @ jsonEntry ''/w/B.java'' ''/c/B.class'' @ '']}''"

definition exStdout :: string where
  "exStdout = ''[INFO] jib'' @ [LF] @ ''BEGIN JIB JSON: SYNCMAP/1'' @ [LF] @ exPayload @ [LF]"

definition exJSON :: JSONSyncMap where
  "exJSON =
     \<lparr>Direct = [\<lparr>Src = ''/w/A.txt'', JDest = ''/c/A.txt''\<rparr>],
      Generated = [\<lparr>Src = ''/w/B.java'', JDest = ''/c/B.class''\<rparr>]\<rparr>"

text \<open>
  The workspace \<open>/w\<close> of the specification's scenarios: the build file \<open>/w/pom.xml\<close>,
  the direct file \<open>/w/A.txt\<close> and the generated file \<open>/w/B.java\<close>, last written at
  times 20 and 30; the working directory is \<open>/w\<close>.
\<close>

definition exWorld :: "(unit, string) world" where
  "exWorld =
     \<lparr>GetBuildDefinitions = (\<lambda>workspace a. [workspace @ ''/pom.xml'']),
      getProjectKey = (\<lambda>workspace a. workspace),
      IsAbs = (\<lambda>f. take 1 f = ''/''),
      Abs = (\<lambda>f. Inr (''/w/'' @ f)),
      Stat = (\<lambda>f. if f = ''/w/A.txt'' then Inr 20
                   else if f = ''/w/B.java'' then Inr 30
                   else Inl (OSError ''no such file or directory'')),
      DeterminePluginType = (\<lambda>workspace a. Inr JibMaven),
      RunCmdOut = (\<lambda>cmd. Inr exStdout),
      Unmarshal = (\<lambda>line. if line = exPayload then Inr exJSON
                           else Inl (OSError ''invalid character''))\<rparr>"

text \<open>The baseline of the scenarios, captured when both files had time 10.\<close>

definition exBaseline :: SyncMap where
  "exBaseline =
     [(''/w/A.txt'', \<lparr>Dest = [''/c/A.txt''], FileTime = 10, IsDirect = True\<rparr>),
      (''/w/B.java'', \<lparr>Dest = [''/c/B.class''], FileTime = 10, IsDirect = False\<rparr>)]"

definition exState :: "string state" where
  "exState = \<lparr>syncLists = [''/w'' \<mapsto> exBaseline], effects = []\<rparr>"

text \<open>What the interpreter reports for the workspace as it is now.\<close>

definition exNext :: SyncMap where
  "exNext =
     [(''/w/A.txt'', \<lparr>Dest = [''/c/A.txt''], FileTime = 20, IsDirect = True\<rparr>),
      (''/w/B.java'', \<lparr>Dest = [''/c/B.class''], FileTime = 30, IsDirect = False\<rparr>)]"

definition exFunc :: "(unit, string) syncMapFunc" where
  "exFunc w workspace a = Inr exNext"

text \<open>A baseline that also has a file the interpreter no longer reports.\<close>

definition exOlder :: "string state" where
  "exOlder = \<lparr>syncLists = [''/w'' \<mapsto>
       (''/w/Gone.txt'', \<lparr>Dest = [''/c/Gone.txt''], FileTime = 10, IsDirect = True\<rparr>) # exBaseline],
     effects = []\<rparr>"

text \<open>A baseline in which the build file is itself a direct entry.\<close>

definition exPomCached :: "string state" where
  "exPomCached = \<lparr>syncLists = [''/w'' \<mapsto>
       [(''/w/pom.xml'', \<lparr>Dest = [''/c/pom.xml''], FileTime = 10, IsDirect = True\<rparr>)]],
     effects = []\<rparr>"


text \<open>An output of the interpreter that lists one source as direct and as generated.\<close>

definition exOverlapPayload :: string where
  "exOverlapPayload =
     ''{'' @ quoted ''direct'' @ '':['' @ jsonEntry ''/w/A.txt'' ''/c/A.txt'' @ ''],'' @
     quoted ''generated'' @ '':['' @ jsonEntry ''/w/A.txt'' ''/c/A.class'' @ '']}''"

definition exOverlapJSON :: JSONSyncMap where
  "exOverlapJSON =
     \<lparr>Direct = [\<lparr>Src = ''/w/A.txt'', JDest = ''/c/A.txt''\<rparr>],
      Generated = [\<lparr>Src = ''/w/A.txt'', JDest = ''/c/A.class''\<rparr>]\<rparr>"

definition exOverlapWorld :: "(unit, string) world" where
  "exOverlapWorld =
     exWorld\<lparr>RunCmdOut := (\<lambda>cmd. Inr (''BEGIN JIB JSON'' @ [CR, LF] @ exOverlapPayload)),
             Unmarshal := (\<lambda>line. if line = exOverlapPayload then Inr exOverlapJSON
                                  else Inl (OSError ''invalid character''))\<rparr>"

section \<open>Lemmas on the loops\<close>

text \<open>The definitions that running the functions on the workspace unfolds.\<close>

lemmas ex_defs = exWorld_def exState_def exBaseline_def exFunc_def exNext_def toAbs_def
  cached_def writeBack_def println_def Let_def

lemma isBuildFile_set: "isBuildFile f bfs \<longleftrightarrow> f \<in> set bfs"
  by (induction bfs) auto

lemma diffLoop_map_of:
  "distinct (map fst N) \<Longrightarrow>
   map_of (diffLoop N O' acc) k =
     (case map_of N k of
        None \<Rightarrow> map_of acc k
      | Some v \<Rightarrow>
          (case map_of O' k of
             None \<Rightarrow> Some (Dest v)
           | Some c \<Rightarrow> if FileTime v \<noteq> FileTime c then Some (Dest v) else map_of acc k))"
proof (induction N arbitrary: acc)
  case Nil
  then show ?case by simp
next
  case (Cons p N)
  obtain k' v' where p: "p = (k', v')" by (cases p)
  from Cons.prems p have notin: "k' \<notin> fst ` set N" and d: "distinct (map fst N)" by auto
  have none: "map_of N k' = None" using notin by (simp add: map_of_eq_None_iff)
  show ?case
    using Cons.IH[OF d] none p
    by (auto simp: update_conv' split: option.splits)
qed

lemma diffLoop_distinct:
  "distinct (map fst acc) \<Longrightarrow> distinct (map fst (diffLoop N O' acc))"
  by (induction N O' acc rule: diffLoop.induct) (auto simp: distinct_update split: option.splits)

lemma sameButTime_refl: "sameButTime w p p"
  by (simp add: sameButTime_def)

lemma sameButTime_trans:
  "sameButTime w p q \<Longrightarrow> sameButTime w q r \<Longrightarrow> sameButTime w p r"
  unfolding sameButTime_def by auto

lemma refreshOf_refl: "refreshOf w m m"
  unfolding refreshOf_def by (simp add: list_all2_refl sameButTime_refl)

lemma refreshOf_trans: "refreshOf w m1 m2 \<Longrightarrow> refreshOf w m2 m3 \<Longrightarrow> refreshOf w m1 m3"
  unfolding refreshOf_def
  using list_all2_trans[of "sameButTime w" "sameButTime w" "sameButTime w" m1 m2 m3] sameButTime_trans[of w]
  by blast

lemma refreshOf_update:
  "map_of m k = Some v \<Longrightarrow> IsDirect v \<Longrightarrow> Stat w k = Inr t \<Longrightarrow>
   refreshOf w m (AList.update k (v\<lparr>FileTime := t\<rparr>) m)"
proof (induction m)
  case Nil
  then show ?case by simp
next
  case (Cons p m)
  show ?case
  proof (cases "fst p = k")
    case True
    with Cons.prems have "snd p = v" by (cases p) auto
    with True Cons.prems show ?thesis
      using refreshOf_refl[of w m]
      by (cases p) (simp add: refreshOf_def sameButTime_def)
  next
    case False
    with Cons.prems have "map_of m k = Some v" by (cases p) (auto split: if_splits)
    from Cons.IH[OF this Cons.prems(2,3)] False show ?thesis
      by (cases p) (simp add: refreshOf_def sameButTime_refl)
  qed
qed

lemma directLoop_refreshOf: "refreshOf w c (endMap (directLoop w fs m c))"
proof (induction fs arbitrary: m c)
  case Nil
  then show ?case by (simp add: refreshOf_refl)
next
  case (Cons f fs)
  show ?case
  proof (cases "toAbs w f")
    case (Inl x)
    then show ?thesis by (simp add: refreshOf_refl)
  next
    case (Inr p)
    show ?thesis
    proof (cases "map_of c p")
      case None
      with Inr show ?thesis by (simp add: refreshOf_refl)
    next
      case (Some v)
      show ?thesis
      proof (cases "IsDirect v")
        case False
        with Inr Some show ?thesis by (simp add: refreshOf_refl)
      next
        case True
        show ?thesis
        proof (cases "Stat w p")
          case (Inl x)
          with Inr Some True show ?thesis by (simp add: refreshOf_refl)
        next
          case st: (Inr t)
          have "refreshOf w c (AList.update p (v\<lparr>FileTime := t\<rparr>) c)"
            using refreshOf_update[OF Some True st] .
          moreover have "refreshOf w (AList.update p (v\<lparr>FileTime := t\<rparr>) c)
              (endMap (directLoop w fs (AList.update p (Dest v) m) (AList.update p (v\<lparr>FileTime := t\<rparr>) c)))"
            by (rule Cons.IH)
          ultimately show ?thesis
            using Inr Some True st by (auto intro: refreshOf_trans)
        qed
      qed
    qed
  qed
qed

lemma refreshOf_keys: "refreshOf w m m' \<Longrightarrow> map fst m' = map fst m"
  unfolding refreshOf_def
  by (induction m m' rule: list_all2_induct) (auto simp: sameButTime_def)

lemma refreshOf_Nil: "refreshOf w [] m' \<Longrightarrow> m' = []"
  by (simp add: refreshOf_def)

lemma directLoop_Nil: "endMap (directLoop w fs m []) = []"
  using directLoop_refreshOf[of w "[]" fs m] by (rule refreshOf_Nil)

lemma cached_writeBack:
  "syncLists s key = None \<longrightarrow> m = [] \<Longrightarrow> cached (writeBack s key m) key = m"
  by (auto simp: cached_def writeBack_def split: option.splits)

lemma cached_None: "syncLists s key = None \<Longrightarrow> cached s key = []"
  by (simp add: cached_def)

text \<open>What reaches line 120 is what the store holds for the key at that moment.\<close>

lemma fastPaths_Inr_cached:
  assumes "fastPaths w workspace a e s = (Inr O', s1)"
  shows "cached s1 (getProjectKey w workspace a) = O'"
proof -
  let ?key = "getProjectKey w workspace a"
  let ?c = "cached s ?key"
  show ?thesis
  proof (cases "length (Deleted e) = 0 \<and> length (Added e) = 0")
    case False
    with assms show ?thesis
      by (auto simp: fastPaths_def Let_def split: guard.splits if_splits)
  next
    case True
    with assms obtain matches where
      loop: "directLoop w (Modified e) [] ?c = LoopDone matches O'" and s1: "s1 = writeBack s ?key O'"
      by (auto simp: fastPaths_def Let_def split: guard.splits if_splits loopEnd.splits)
    have "syncLists s ?key = None \<longrightarrow> O' = []"
    proof
      assume "syncLists s ?key = None"
      then have "?c = []" by (rule cached_None)
      with directLoop_Nil[of w "Modified e" "[]"] loop show "O' = []" by simp
    qed
    then show ?thesis unfolding s1 by (rule cached_writeBack)
  qed
qed

section \<open>The guards\<close>

lemma buildFileGuard_Pass:
  "\<forall>f\<in>set fs. \<exists>p. toAbs w f = Inr p \<and> p \<notin> set bfs \<Longrightarrow> buildFileGuard w bfs fs = Pass"
  by (induction fs) (auto simp: isBuildFile_set)

lemma buildFileGuard_Rebuild:
  "\<forall>g\<in>set pre. \<exists>q. toAbs w g = Inr q \<Longrightarrow> toAbs w f = Inr p \<Longrightarrow> p \<in> set bfs \<Longrightarrow>
   buildFileGuard w bfs (pre @ f # post) = Rebuild"
  by (induction pre) (auto simp: isBuildFile_set)

text \<open>
  Claim C3, as the code has it. When a path of \<open>e.Modified\<close> resolves to one of the
  build-definition files and every path listed before it in \<open>e.Modified\<close> resolves,
  \<open>GetSyncDiff\<close> returns \<open>(nil, nil, nil)\<close> whatever else \<open>e.Modified\<close>, \<open>e.Added\<close>
  and \<open>e.Deleted\<close> hold, and leaves the state as it was: nothing was printed by the
  deletion guard, no file time was refreshed by the direct fast path, and
  \<open>getSyncMapFunc\<close> was not called.
\<close>

theorem buildFile_guard_first:
  assumes "Modified e = pre @ f # post"
    and "\<forall>g\<in>set pre. \<exists>q. toAbs w g = Inr q"
    and "toAbs w f = Inr p"
    and "p \<in> set (GetBuildDefinitions w workspace a)"
  shows "GetSyncDiff getSyncMapFunc w workspace a e s = ((None, None, None), s)"
  using buildFileGuard_Rebuild[OF assms(2,3,4), of post] assms(1)
  by (simp add: GetSyncDiff_def fastPaths_def)

theorem buildFile_guard_first_witness:
  "GetSyncDiff exFunc exWorld ''/w'' ()
     \<lparr>Added = [''/w/New.txt''], Modified = [''A.txt'', ''pom.xml'', ''B.java''], Deleted = [''/w/Old.txt'']\<rparr>
     exState = ((None, None, None), exState)"
proof -
  let ?e = "\<lparr>Added = [''/w/New.txt''], Modified = [''A.txt'', ''pom.xml'', ''B.java''], Deleted = [''/w/Old.txt'']\<rparr>"
  have h1: "Modified ?e = [''A.txt''] @ ''pom.xml'' # [''B.java'']" by simp
  have h2: "\<forall>g\<in>set [''A.txt'']. \<exists>q. toAbs exWorld g = Inr q" by (simp add: ex_defs)
  have h3: "toAbs exWorld ''pom.xml'' = Inr ''/w/pom.xml''" by (simp add: ex_defs)
  have h4: "''/w/pom.xml'' \<in> set (GetBuildDefinitions exWorld ''/w'' ())" by (simp add: ex_defs)
  show ?thesis
    by (rule buildFile_guard_first[OF h1 h2 h3 h4])
qed

text \<open>
  The guard resolves the paths in order and returns the error of the first one that
  fails: with no working directory, the relative path \<open>A.txt\<close> does not resolve, and
  the build file \<open>/w/pom.xml\<close> listed after it is never looked at.
\<close>

theorem buildFile_guard_counterexample:
  "toAbs (exWorld\<lparr>Abs := \<lambda>f. Inl (OSError ''getwd: no such file or directory'')\<rparr>) ''/w/pom.xml''
     = Inr ''/w/pom.xml'' \<and>
   ''/w/pom.xml'' \<in> set (GetBuildDefinitions
      (exWorld\<lparr>Abs := \<lambda>f. Inl (OSError ''getwd: no such file or directory'')\<rparr>) ''/w'' ()) \<and>
   fst (GetSyncDiff exFunc (exWorld\<lparr>Abs := \<lambda>f. Inl (OSError ''getwd: no such file or directory'')\<rparr>)
      ''/w'' () \<lparr>Added = [], Modified = [''A.txt'', ''/w/pom.xml''], Deleted = []\<rparr> exState)
     = (None, None, Some (WithStack (WithStack (OSError ''getwd: no such file or directory''))))"
  by (simp add: GetSyncDiff_def fastPaths_def ex_defs)

text \<open>
  Claim C8. When \<open>e.Deleted\<close> is not empty, every path of \<open>e.Modified\<close> resolves and
  none of them is a build-definition file, \<open>GetSyncDiff\<close> returns \<open>(nil, nil, nil)\<close>,
  whatever the cached map says of the modified paths. The only trace of the call is the
  printed line: the store is untouched and \<open>getSyncMapFunc\<close> is not called.
\<close>

theorem deletion_guard:
  assumes "Deleted e \<noteq> []"
    and "\<forall>f\<in>set (Modified e). \<exists>p. toAbs w f = Inr p \<and> p \<notin> set (GetBuildDefinitions w workspace a)"
  shows "GetSyncDiff getSyncMapFunc w workspace a e s =
     ((None, None, None),
      s\<lparr>effects := effects s @ [Println ''Deletions are not supported by jib auto sync at the moment'']\<rparr>)"
  using buildFileGuard_Pass[OF assms(2)] assms(1)
  by (simp add: GetSyncDiff_def fastPaths_def println_def)

theorem deletion_guard_witness:
  "GetSyncDiff exFunc exWorld ''/w'' ()
     \<lparr>Added = [], Modified = [''A.txt''], Deleted = [''/w/Old.txt'']\<rparr> exState =
     ((None, None, None),
      exState\<lparr>effects := effects exState @ [Println ''Deletions are not supported by jib auto sync at the moment'']\<rparr>)"
proof -
  let ?e = "\<lparr>Added = [], Modified = [''A.txt''], Deleted = [''/w/Old.txt'']\<rparr>"
  have h1: "Deleted ?e \<noteq> []" by simp
  have h2: "\<forall>f\<in>set (Modified ?e). \<exists>p. toAbs exWorld f = Inr p \<and> p \<notin> set (GetBuildDefinitions exWorld ''/w'' ())"
    by (simp add: ex_defs)
  show ?thesis
    by (rule deletion_guard[OF h1 h2])
qed

section \<open>No deletions\<close>

lemma diffLoop_other: "k \<notin> fst ` set N \<Longrightarrow> map_of (diffLoop N O' acc) k = map_of acc k"
  by (induction N O' acc rule: diffLoop.induct) (auto simp: update_conv' split: option.splits)

lemma fastPaths_toDelete: "fastPaths w workspace a e s = (Inl r, s1) \<Longrightarrow> retToDelete r = None"
  by (auto simp: fastPaths_def Let_def retToDelete_def split: guard.splits if_splits loopEnd.splits)

lemma recompute_toDelete: "retToDelete (fst (recompute f w workspace a c s)) = None"
  by (auto simp: recompute_def Let_def retToDelete_def split: sum.splits)

lemma recompute_Inr:
  "f w workspace a = Inr N \<Longrightarrow>
   fst (recompute f w workspace a c s) = (Some (diffLoop N c []), None, None)"
  by (simp add: recompute_def Let_def)

text \<open>
  Claim C7. \<open>toDelete\<close> is \<open>nil\<close> on every return of \<open>GetSyncDiff\<close>. In the full
  recomputation, a path \<open>k\<close> of the old cached map \<open>O'\<close> that the new map \<open>N\<close> does
  not have gets no entry in \<open>toCopy\<close> (and \<open>toDelete\<close> is \<open>nil\<close>).
\<close>

theorem no_deletions:
  "retToDelete (fst (GetSyncDiff getSyncMapFunc w workspace a e s)) = None \<and>
   (fastPaths w workspace a e s = (Inr O', s1) \<longrightarrow> getSyncMapFunc w workspace a = Inr N \<longrightarrow>
    map_of O' k = Some v \<longrightarrow> map_of N k = None \<longrightarrow>
    (\<exists>tc. fst (GetSyncDiff getSyncMapFunc w workspace a e s) = (Some tc, None, None) \<and>
          map_of tc k = None))"
proof
  show "retToDelete (fst (GetSyncDiff getSyncMapFunc w workspace a e s)) = None"
  proof (cases "fastPaths w workspace a e s")
    case (Pair x s2)
    then show ?thesis
      by (cases x) (auto simp: GetSyncDiff_def recompute_toDelete dest: fastPaths_toDelete)
  qed
next
  show "fastPaths w workspace a e s = (Inr O', s1) \<longrightarrow> getSyncMapFunc w workspace a = Inr N \<longrightarrow>
    map_of O' k = Some v \<longrightarrow> map_of N k = None \<longrightarrow>
    (\<exists>tc. fst (GetSyncDiff getSyncMapFunc w workspace a e s) = (Some tc, None, None) \<and>
          map_of tc k = None)"
  proof (intro impI)
    assume fp: "fastPaths w workspace a e s = (Inr O', s1)"
      and n: "getSyncMapFunc w workspace a = Inr N"
      and absent: "map_of N k = None"
    have "k \<notin> fst ` set N" using absent by (simp add: map_of_eq_None_iff)
    then have "map_of (diffLoop N O' []) k = None" by (simp add: diffLoop_other)
    then show "\<exists>tc. fst (GetSyncDiff getSyncMapFunc w workspace a e s) = (Some tc, None, None) \<and>
          map_of tc k = None"
      using fp recompute_Inr[where f = getSyncMapFunc, OF n] by (simp add: GetSyncDiff_def)
  qed
qed

theorem no_deletions_witness:
  "retToDelete (fst (GetSyncDiff exFunc exWorld ''/w'' ()
      \<lparr>Added = [], Modified = [''B.java''], Deleted = []\<rparr> exOlder)) = None \<and>
   (\<exists>tc. fst (GetSyncDiff exFunc exWorld ''/w'' ()
      \<lparr>Added = [], Modified = [''B.java''], Deleted = []\<rparr> exOlder) = (Some tc, None, None) \<and>
      map_of tc ''/w/Gone.txt'' = None)"
proof -
  let ?e = "\<lparr>Added = [], Modified = [''B.java''], Deleted = []\<rparr>"
  let ?O = "(''/w/Gone.txt'', \<lparr>Dest = [''/c/Gone.txt''], FileTime = 10, IsDirect = True\<rparr>) # exBaseline"
  have h1: "fastPaths exWorld ''/w'' () ?e exOlder = (Inr ?O, snd (fastPaths exWorld ''/w'' () ?e exOlder))"
    by (simp add: fastPaths_def exOlder_def ex_defs)
  have h2: "exFunc exWorld ''/w'' () = Inr exNext" by (simp add: exFunc_def)
  have h3: "map_of ?O ''/w/Gone.txt'' = Some \<lparr>Dest = [''/c/Gone.txt''], FileTime = 10, IsDirect = True\<rparr>"
    by simp
  have h4: "map_of exNext ''/w/Gone.txt'' = None" by (simp add: exNext_def)
  show ?thesis
    using no_deletions[where getSyncMapFunc = exFunc and w = exWorld and workspace = "''/w''"
        and a = "()" and e = ?e and s = exOlder and O' = ?O and N = exNext and k = "''/w/Gone.txt''"]
      h1 h2 h3 h4
    by blast
qed

section \<open>The direct fast path\<close>

lemma length_update:
  "length (AList.update k v al) = (if k \<in> fst ` set al then length al else Suc (length al))"
  by (induction al) auto

lemma directLoop_direct:
  assumes "\<forall>f\<in>set fs. \<exists>p v t. toAbs w f = Inr p \<and> map_of c p = Some v \<and> IsDirect v \<and> Stat w p = Inr t"
    and "distinct (map (toAbs w) fs)"
    and "\<forall>f\<in>set fs. \<forall>p. toAbs w f = Inr p \<longrightarrow> p \<notin> fst ` set m"
  shows "\<exists>m' c'. directLoop w fs m c = LoopDone m' c' \<and> length m' = length m + length fs \<and>
           (\<forall>p. map_of m' p =
              (if Inr p \<in> toAbs w ` set fs then map_option Dest (map_of c p) else map_of m p))"
  using assms
proof (induction fs arbitrary: m c)
  case Nil
  then show ?case by simp
next
  case (Cons f fs)
  from Cons.prems(1) obtain p v t where
    f: "toAbs w f = Inr p" "map_of c p = Some v" "IsDirect v" "Stat w p = Inr t"
    by auto
  let ?m = "AList.update p (Dest v) m"
  let ?c = "AList.update p (v\<lparr>FileTime := t\<rparr>) c"
  have notin: "Inr p \<notin> toAbs w ` set fs"
    using Cons.prems(2) f(1) by auto
  have other: "map_of ?c q = map_of c q" if "q \<noteq> p" for q
    using that by (simp add: update_conv')
  have h1: "\<forall>g\<in>set fs. \<exists>q u t'. toAbs w g = Inr q \<and> map_of ?c q = Some u \<and> IsDirect u \<and> Stat w q = Inr t'"
  proof
    fix g assume g: "g \<in> set fs"
    with Cons.prems(1) obtain q u t' where
      q: "toAbs w g = Inr q" "map_of c q = Some u" "IsDirect u" "Stat w q = Inr t'"
      by auto
    from g q(1) notin have "q \<noteq> p" by force
    with q other show "\<exists>q u t'. toAbs w g = Inr q \<and> map_of ?c q = Some u \<and> IsDirect u \<and> Stat w q = Inr t'"
      by auto
  qed
  have h2: "distinct (map (toAbs w) fs)"
    using Cons.prems(2) by simp
  have h3: "\<forall>g\<in>set fs. \<forall>q. toAbs w g = Inr q \<longrightarrow> q \<notin> fst ` set ?m"
  proof (intro ballI allI impI)
    fix g q assume g: "g \<in> set fs" and q: "toAbs w g = Inr q"
    from g q notin have "q \<noteq> p" by force
    moreover from Cons.prems(3) g q have "q \<notin> fst ` set m" by auto
    ultimately show "q \<notin> fst ` set ?m" by (simp add: dom_update)
  qed
  from Cons.IH[OF h1 h2 h3] obtain m' c' where
    loop: "directLoop w fs ?m ?c = LoopDone m' c'"
    and len: "length m' = length ?m + length fs"
    and maps: "\<forall>q. map_of m' q =
              (if Inr q \<in> toAbs w ` set fs then map_option Dest (map_of ?c q) else map_of ?m q)"
    by blast
  have pm: "p \<notin> fst ` set m"
    using Cons.prems(3) f(1) by auto
  have len': "length m' = length m + length (f # fs)"
    using len pm by (simp add: length_update)
  have maps': "map_of m' q =
      (if Inr q \<in> toAbs w ` set (f # fs) then map_option Dest (map_of c q) else map_of m q)" for q
  proof (cases "q = p")
    case True
    with maps notin f show ?thesis by (simp add: update_conv')
  next
    case False
    with maps other f(1) show ?thesis by (auto simp: update_conv')
  qed
  show ?case
    using f loop len' maps' by simp
qed

text \<open>
  Claim C2, as the code has it. When \<open>e.Added\<close> and \<open>e.Deleted\<close> are empty and every
  path of \<open>e.Modified\<close> resolves to an absolute path that is not a build-definition
  file, is a direct entry of the cached map and can be stat'ed, and no two of them resolve
  to the same path, \<open>GetSyncDiff\<close> returns \<open>(toCopy, nil, nil)\<close> where \<open>toCopy\<close> has
  exactly the resolved paths, each with its cached destinations; nothing is printed and
  \<open>getSyncMapFunc\<close> is not called.
\<close>

theorem direct_fast_path:
  assumes "Added e = []" and "Deleted e = []"
    and "\<forall>f\<in>set (Modified e). \<exists>p v t. toAbs w f = Inr p \<and>
           p \<notin> set (GetBuildDefinitions w workspace a) \<and>
           map_of (cached s (getProjectKey w workspace a)) p = Some v \<and> IsDirect v \<and>
           Stat w p = Inr t"
    and "distinct (map (toAbs w) (Modified e))"
  shows "\<exists>tc s'. GetSyncDiff getSyncMapFunc w workspace a e s = ((Some tc, None, None), s') \<and>
           effects s' = effects s \<and>
           length tc = length (Modified e) \<and>
           (\<forall>p. map_of tc p =
              (if Inr p \<in> toAbs w ` set (Modified e)
               then map_option Dest (map_of (cached s (getProjectKey w workspace a)) p)
               else None))"
proof -
  let ?key = "getProjectKey w workspace a"
  have guard: "buildFileGuard w (GetBuildDefinitions w workspace a) (Modified e) = Pass"
    by (rule buildFileGuard_Pass) (use assms(3) in blast)
  have h1: "\<forall>f\<in>set (Modified e). \<exists>p v t. toAbs w f = Inr p \<and>
      map_of (cached s ?key) p = Some v \<and> IsDirect v \<and> Stat w p = Inr t"
    using assms(3) by blast
  have h3: "\<forall>f\<in>set (Modified e). \<forall>p. toAbs w f = Inr p \<longrightarrow> p \<notin> fst ` set ([] :: CopyMap)"
    by simp
  from directLoop_direct[OF h1 assms(4) h3] obtain m' c' where
    loop: "directLoop w (Modified e) [] (cached s ?key) = LoopDone m' c'"
    and len: "length m' = length (Modified e)"
    and maps: "\<forall>p. map_of m' p =
              (if Inr p \<in> toAbs w ` set (Modified e)
               then map_option Dest (map_of (cached s ?key) p) else None)"
    by auto
  have "GetSyncDiff getSyncMapFunc w workspace a e s = ((Some m', None, None), writeBack s ?key c')"
    using guard assms(1,2) loop len by (simp add: GetSyncDiff_def fastPaths_def)
  moreover have "effects (writeBack s ?key c') = effects s"
    by (simp add: writeBack_def split: option.splits)
  ultimately show ?thesis
    using len maps by blast
qed

theorem direct_fast_path_witness:
  "\<exists>tc s'. GetSyncDiff exFunc exWorld ''/w'' ()
       \<lparr>Added = [], Modified = [''A.txt''], Deleted = []\<rparr> exState = ((Some tc, None, None), s') \<and>
     effects s' = effects exState \<and>
     length tc = 1 \<and>
     map_of tc ''/w/A.txt'' = Some [''/c/A.txt''] \<and>
     map_of tc ''/w/B.java'' = None"
proof -
  let ?e = "\<lparr>Added = [], Modified = [''A.txt''], Deleted = []\<rparr>"
  have h1: "Added ?e = []" and h2: "Deleted ?e = []" by simp_all
  have h3: "\<forall>f\<in>set (Modified ?e). \<exists>p v t. toAbs exWorld f = Inr p \<and>
           p \<notin> set (GetBuildDefinitions exWorld ''/w'' ()) \<and>
           map_of (cached exState (getProjectKey exWorld ''/w'' ())) p = Some v \<and> IsDirect v \<and>
           Stat exWorld p = Inr t"
    by (simp add: ex_defs)
  have h4: "distinct (map (toAbs exWorld) (Modified ?e))" by simp
  from direct_fast_path[where getSyncMapFunc = exFunc, OF h1 h2 h3 h4] obtain tc s' where
    r: "GetSyncDiff exFunc exWorld ''/w'' () ?e exState = ((Some tc, None, None), s')"
    and eff: "effects s' = effects exState"
    and len: "length tc = length (Modified ?e)"
    and m: "\<forall>p. map_of tc p =
              (if Inr p \<in> toAbs exWorld ` set (Modified ?e)
               then map_option Dest (map_of (cached exState (getProjectKey exWorld ''/w'' ())) p)
               else None)"
    by blast
  have "map_of tc ''/w/A.txt'' = Some [''/c/A.txt'']"
    by (simp add: m ex_defs)
  moreover have "map_of tc ''/w/B.java'' = None"
    by (simp add: m ex_defs)
  moreover have "length tc = 1" using len by simp
  ultimately show ?thesis using r eff by blast
qed

text \<open>
  Three events whose modified paths are all direct entries of the cached map, and added
  and deleted are empty. In the first \<open>os.Stat\<close> fails and the call returns the error.
  In the second the path is also a build-definition file and the guard returns
  \<open>(nil, nil, nil)\<close>. In the third the two paths are two spellings of one file, so
  \<open>len(matches)\<close> is 1 and \<open>len(e.Modified)\<close> is 2: \<open>getSyncMapFunc\<close> is called,
  and \<open>/w/A.txt\<close>, whose file time was refreshed, is not in \<open>toCopy\<close>.
\<close>

theorem direct_fast_path_counterexample:
  "fst (GetSyncDiff exFunc (exWorld\<lparr>Stat := \<lambda>f. Inl (OSError ''permission denied'')\<rparr>) ''/w'' ()
      \<lparr>Added = [], Modified = [''/w/A.txt''], Deleted = []\<rparr> exState)
     = (None, None, Some (Wrap (OSError ''permission denied'') ''could not obtain file mod time'')) \<and>
   fst (GetSyncDiff exFunc exWorld ''/w'' ()
      \<lparr>Added = [], Modified = [''/w/pom.xml''], Deleted = []\<rparr> exPomCached)
     = (None, None, None) \<and>
   GetSyncDiff exFunc exWorld ''/w'' ()
      \<lparr>Added = [], Modified = [''/w/A.txt'', ''A.txt''], Deleted = []\<rparr> exState
     = ((Some [(''/w/B.java'', [''/c/B.class''])], None, None),
        \<lparr>syncLists = [''/w'' \<mapsto> exNext],
         effects = [CalledGetSyncMapFunc,
           PrintlnMap ''curr''
             [(''/w/A.txt'', \<lparr>Dest = [''/c/A.txt''], FileTime = 20, IsDirect = True\<rparr>),
              (''/w/B.java'', \<lparr>Dest = [''/c/B.class''], FileTime = 10, IsDirect = False\<rparr>)],
           PrintlnMap ''next'' exNext]\<rparr>)"
  by (simp add: GetSyncDiff_def fastPaths_def recompute_def exPomCached_def ex_defs)

section \<open>What a call does to the store\<close>

lemma writeBack_other: "k \<noteq> key \<Longrightarrow> syncLists (writeBack s key m) k = syncLists s k"
  by (simp add: writeBack_def split: option.splits)

lemma writeBack_None: "(syncLists (writeBack s key m) key = None) = (syncLists s key = None)"
  by (simp add: writeBack_def split: option.splits)

lemma writeBack_effects: "effects (writeBack s key m) = effects s"
  by (simp add: writeBack_def split: option.splits)

lemma writeBack_refreshOf:
  assumes "refreshOf w (cached s key) m"
  shows "refreshOf w (cached s key) (cached (writeBack s key m) key)"
proof (cases "syncLists s key")
  case None
  then have "cached s key = []" by (rule cached_None)
  with assms have "m = []" by (simp add: refreshOf_Nil)
  with None show ?thesis by (simp add: cached_def writeBack_def refreshOf_refl)
next
  case (Some c)
  then have "cached (writeBack s key m) key = m" by (simp add: cached_def writeBack_def)
  with assms show ?thesis by simp
qed

lemma recomputations_same: "effects s' = effects s \<Longrightarrow> recomputations s s' = 0"
  by (simp add: recomputations_def)

text \<open>Lines 68 to 118 leave the store as it was but for refreshed file times.\<close>

lemma fastPaths_store:
  assumes "fastPaths w workspace a e s = (x, s1)"
  shows "(\<forall>k. k \<noteq> getProjectKey w workspace a \<longrightarrow> syncLists s1 k = syncLists s k) \<and>
         (syncLists s1 (getProjectKey w workspace a) = None) =
           (syncLists s (getProjectKey w workspace a) = None) \<and>
         refreshOf w (cached s (getProjectKey w workspace a)) (cached s1 (getProjectKey w workspace a)) \<and>
         recomputations s s1 = 0"
proof -
  let ?key = "getProjectKey w workspace a"
  let ?m = "endMap (directLoop w (Modified e) [] (cached s ?key))"
  let ?msg = "Println ''Deletions are not supported by jib auto sync at the moment''"
  from assms consider "s1 = s" | "s1 = println ?msg s" | "s1 = writeBack s ?key ?m"
    by (auto simp: fastPaths_def Let_def split: guard.splits if_splits loopEnd.splits)
  then show ?thesis
  proof cases
    case 1
    then show ?thesis by (simp add: refreshOf_refl recomputations_def)
  next
    case 2
    then show ?thesis by (simp add: println_def cached_def refreshOf_refl recomputations_def)
  next
    case 3
    have "refreshOf w (cached s ?key) ?m" by (rule directLoop_refreshOf)
    then have "refreshOf w (cached s ?key) (cached (writeBack s ?key ?m) ?key)"
      by (rule writeBack_refreshOf)
    then show ?thesis
      unfolding 3
      by (simp add: writeBack_other writeBack_None recomputations_same writeBack_effects)
  qed
qed


lemma recompute_Inl:
  "f w workspace a = Inl x \<Longrightarrow>
   recompute f w workspace a c s = ((None, None, Some x), println CalledGetSyncMapFunc s)"
  by (simp add: recompute_def)

lemma recompute_Inr_state:
  "f w workspace a = Inr N \<Longrightarrow>
   recompute f w workspace a c s =
     ((Some (diffLoop N c []), None, None),
      \<lparr>syncLists = (syncLists s)(getProjectKey w workspace a \<mapsto> N),
       effects = effects s @ [CalledGetSyncMapFunc, PrintlnMap ''curr'' c, PrintlnMap ''next'' N]\<rparr>)"
  by (simp add: recompute_def Let_def println_def)

lemma cached_println: "cached (println x s) key = cached s key"
  by (simp add: cached_def println_def)

lemma recomputations_println_call:
  "recomputations s s1 = 0 \<Longrightarrow> length (effects s) \<le> length (effects s1) \<Longrightarrow>
   recomputations s (println CalledGetSyncMapFunc s1) = 1"
  by (simp add: recomputations_def println_def)

lemma fastPaths_effects_length:
  "fastPaths w workspace a e s = (x, s1) \<Longrightarrow> length (effects s) \<le> length (effects s1)"
  by (auto simp: fastPaths_def Let_def println_def writeBack_effects
      split: guard.splits if_splits loopEnd.splits)

text \<open>Lines 68 to 118 refresh the matched entries, and no other.\<close>

lemma matched_update:
  assumes "map_of c p = Some v"
  shows "matched w (AList.update p (v\<lparr>FileTime := t\<rparr>) c) = matched w c"
proof
  fix f
  show "matched w (AList.update p (v\<lparr>FileTime := t\<rparr>) c) f = matched w c f"
    using assms by (auto simp: matched_def update_conv' split: sum.splits option.splits)
qed

lemma directLoop_unmatched:
  "\<not> matched w c f \<Longrightarrow> endMap (directLoop w (f # fs) mt c) = c"
  by (auto simp: matched_def split: sum.splits option.splits)

lemma directLoop_matched:
  "map_of (endMap (directLoop w fs mt c)) k =
     (if k \<in> set (resolved w (takeWhile (matched w c) fs))
      then refreshAt w k (map_of c k) else map_of c k)"
proof (induction fs arbitrary: mt c)
  case Nil
  show ?case by simp
next
  case (Cons f fs)
  show ?case
  proof (cases "matched w c f")
    case False
    then show ?thesis
      using directLoop_unmatched[OF False, of fs mt] by (simp del: directLoop.simps)
  next
    case True
    then obtain p v t where f: "toAbs w f = Inr p" "map_of c p = Some v" "IsDirect v"
      "Stat w p = Inr t"
      by (auto simp: matched_def split: sum.splits option.splits)
    let ?c = "AList.update p (v\<lparr>FileTime := t\<rparr>) c"
    have same: "matched w ?c = matched w c" using f(2) by (rule matched_update)
    have step: "directLoop w (f # fs) mt c = directLoop w fs (AList.update p (Dest v) mt) ?c"
      using f by simp
    have IH: "map_of (endMap (directLoop w fs (AList.update p (Dest v) mt) ?c)) k =
        (if k \<in> set (resolved w (takeWhile (matched w c) fs))
         then refreshAt w k (map_of ?c k) else map_of ?c k)"
      using Cons.IH[of "AList.update p (Dest v) mt" ?c] by (simp only: same)
    have pre: "resolved w (takeWhile (matched w c) (f # fs)) =
        p # resolved w (takeWhile (matched w c) fs)"
      using True f(1) by simp
    show ?thesis
    proof (cases "k = p")
      case True
      then show ?thesis
        unfolding step IH pre using f by (simp add: update_conv' refreshAt_def)
    next
      case False
      then show ?thesis
        unfolding step IH pre by (simp add: update_conv')
    qed
  qed
qed

lemma fastPaths_matched:
  assumes "fastPaths w workspace a e s = (x, s1)"
  shows "map_of (cached s1 (getProjectKey w workspace a)) k =
     (if k \<in> set (matchedPaths w workspace a e s)
      then refreshAt w k (map_of (cached s (getProjectKey w workspace a)) k)
      else map_of (cached s (getProjectKey w workspace a)) k)"
proof -
  let ?key = "getProjectKey w workspace a"
  let ?c = "cached s ?key"
  let ?tried = "buildFileGuard w (GetBuildDefinitions w workspace a) (Modified e) = Pass \<and>
         Deleted e = [] \<and> Added e = []"
  show ?thesis
  proof (cases ?tried)
    case False
    then have none: "matchedPaths w workspace a e s = []" by (auto simp: matchedPaths_def)
    from False assms have "cached s1 ?key = ?c"
      by (auto simp: fastPaths_def Let_def println_def cached_def split: guard.splits if_splits)
    with none show ?thesis by simp
  next
    case True
    let ?m = "endMap (directLoop w (Modified e) [] ?c)"
    from True assms have s1: "s1 = writeBack s ?key ?m"
      by (auto simp: fastPaths_def Let_def split: loopEnd.splits if_splits)
    have "syncLists s ?key = None \<longrightarrow> ?m = []"
      using directLoop_Nil[of w "Modified e" "[]"] by (auto simp: cached_None)
    then have "cached s1 ?key = ?m" unfolding s1 by (rule cached_writeBack)
    moreover have "matchedPaths w workspace a e s =
        resolved w (takeWhile (matched w ?c) (Modified e))"
      using True by (simp add: matchedPaths_def)
    ultimately show ?thesis by (simp add: directLoop_matched)
  qed
qed




text \<open>
  Claim C5, as the code has it. A call of \<open>GetSyncDiff\<close> never touches the maps of other
  project keys. For its own key, either \<open>getSyncMapFunc\<close> was called once and returned a
  map \<open>N\<close>, no error is returned and the store holds \<open>N\<close>; or the store holds the map it
  held before, with the same paths, destinations and \<open>IsDirect\<close> flags, in which the
  direct fast path has refreshed in place the file times of the entries it matched, and
  of no other entry (of none when it was not tried).
  \<open>InitSync\<close> stores the map \<open>getSyncMapFunc\<close> returns, and nothing when it fails.
\<close>

theorem store_changes:
  assumes "GetSyncDiff getSyncMapFunc w workspace a e s = (r, s')"
  shows "(\<forall>k. k \<noteq> getProjectKey w workspace a \<longrightarrow> syncLists s' k = syncLists s k) \<and>
         ((\<exists>N. getSyncMapFunc w workspace a = Inr N \<and> recomputations s s' = 1 \<and>
               retErr r = None \<and> syncLists s' (getProjectKey w workspace a) = Some N) \<or>
          ((syncLists s' (getProjectKey w workspace a) = None) =
             (syncLists s (getProjectKey w workspace a) = None) \<and>
           refreshOf w (cached s (getProjectKey w workspace a))
             (cached s' (getProjectKey w workspace a)) \<and>
           (\<forall>k. map_of (cached s' (getProjectKey w workspace a)) k =
              (if k \<in> set (matchedPaths w workspace a e s)
               then refreshAt w k (map_of (cached s (getProjectKey w workspace a)) k)
               else map_of (cached s (getProjectKey w workspace a)) k)))) \<and>
         syncLists (snd (InitSync getSyncMapFunc w workspace a s)) =
           (case getSyncMapFunc w workspace a of
              Inl x \<Rightarrow> syncLists s
            | Inr N \<Rightarrow> (syncLists s)(getProjectKey w workspace a \<mapsto> N))"
proof -
  let ?key = "getProjectKey w workspace a"
  obtain x s1 where fp: "fastPaths w workspace a e s = (x, s1)"
    by (cases "fastPaths w workspace a e s")
  note store = fastPaths_store[OF fp]
  have entries: "\<forall>k. map_of (cached s1 ?key) k =
            (if k \<in> set (matchedPaths w workspace a e s)
             then refreshAt w k (map_of (cached s ?key) k)
             else map_of (cached s ?key) k)"
    by (intro allI) (rule fastPaths_matched[OF fp])
  have init: "syncLists (snd (InitSync getSyncMapFunc w workspace a s)) =
           (case getSyncMapFunc w workspace a of
              Inl x \<Rightarrow> syncLists s
            | Inr N \<Rightarrow> (syncLists s)(?key \<mapsto> N))"
    by (simp add: InitSync_def Let_def println_def split: sum.splits)
  have kept: "(\<forall>k. k \<noteq> ?key \<longrightarrow> syncLists s' k = syncLists s k) \<and>
          (syncLists s' ?key = None) = (syncLists s ?key = None) \<and>
           refreshOf w (cached s ?key) (cached s' ?key) \<and>
           (\<forall>k. map_of (cached s' ?key) k =
              (if k \<in> set (matchedPaths w workspace a e s)
               then refreshAt w k (map_of (cached s ?key) k)
               else map_of (cached s ?key) k))"
    if "syncLists s' = syncLists s1"
  proof -
    from that have "cached s' ?key = cached s1 ?key" by (simp add: cached_def)
    with that store entries show ?thesis by simp
  qed
  have diff: "(\<forall>k. k \<noteq> ?key \<longrightarrow> syncLists s' k = syncLists s k) \<and>
         ((\<exists>N. getSyncMapFunc w workspace a = Inr N \<and> recomputations s s' = 1 \<and>
               retErr r = None \<and> syncLists s' ?key = Some N) \<or>
          ((syncLists s' ?key = None) = (syncLists s ?key = None) \<and>
           refreshOf w (cached s ?key) (cached s' ?key) \<and>
           (\<forall>k. map_of (cached s' ?key) k =
              (if k \<in> set (matchedPaths w workspace a e s)
               then refreshAt w k (map_of (cached s ?key) k)
               else map_of (cached s ?key) k))))"
  proof (cases x)
    case (Inl r1)
    with fp assms have "syncLists s' = syncLists s1" by (simp add: GetSyncDiff_def)
    from kept[OF this] show ?thesis by blast
  next
    case (Inr c)
    with fp assms have run: "recompute getSyncMapFunc w workspace a c s1 = (r, s')"
      by (simp add: GetSyncDiff_def)
    show ?thesis
    proof (cases "getSyncMapFunc w workspace a")
      case (Inl y)
      from run recompute_Inl[where f = getSyncMapFunc, OF Inl, of c s1]
      have "syncLists s' = syncLists s1" by (auto simp: println_def)
      from kept[OF this] show ?thesis by blast
    next
      case (Inr N)
      from run recompute_Inr_state[where f = getSyncMapFunc, OF Inr, of c s1]
      have r: "r = (Some (diffLoop N c []), None, None)"
        and s': "s' = \<lparr>syncLists = (syncLists s1)(?key \<mapsto> N),
           effects = effects s1 @ [CalledGetSyncMapFunc, PrintlnMap ''curr'' c, PrintlnMap ''next'' N]\<rparr>"
        by simp_all
      have "recomputations s s' = 1"
        using store fastPaths_effects_length[OF fp] unfolding s'
        by (simp add: recomputations_def)
      then show ?thesis
        using store Inr r by (simp add: retErr_def s')
    qed
  qed
  from diff init show ?thesis by blast
qed

theorem store_changes_witness:
  "recomputations exState (snd (GetSyncDiff exFunc exWorld ''/w'' ()
      \<lparr>Added = [], Modified = [''A.txt''], Deleted = []\<rparr> exState)) = 0 \<and>
   matchedPaths exWorld ''/w'' ()
      \<lparr>Added = [], Modified = [''A.txt''], Deleted = []\<rparr> exState = [''/w/A.txt''] \<and>
   refreshOf exWorld exBaseline (cached (snd (GetSyncDiff exFunc exWorld ''/w'' ()
      \<lparr>Added = [], Modified = [''A.txt''], Deleted = []\<rparr> exState)) ''/w'') \<and>
   map_of (cached (snd (GetSyncDiff exFunc exWorld ''/w'' ()
      \<lparr>Added = [], Modified = [''A.txt''], Deleted = []\<rparr> exState)) ''/w'') ''/w/A.txt'' =
     Some \<lparr>Dest = [''/c/A.txt''], FileTime = 20, IsDirect = True\<rparr> \<and>
   map_of (cached (snd (GetSyncDiff exFunc exWorld ''/w'' ()
      \<lparr>Added = [], Modified = [''A.txt''], Deleted = []\<rparr> exState)) ''/w'') ''/w/B.java'' =
     Some \<lparr>Dest = [''/c/B.class''], FileTime = 10, IsDirect = False\<rparr> \<and>
   syncLists (snd (GetSyncDiff exFunc exWorld ''/w'' ()
      \<lparr>Added = [], Modified = [''A.txt''], Deleted = []\<rparr> exState)) ''/elsewhere'' =
     syncLists exState ''/elsewhere''"
proof -
  let ?e = "\<lparr>Added = [], Modified = [''A.txt''], Deleted = []\<rparr>"
  let ?run = "GetSyncDiff exFunc exWorld ''/w'' () ?e exState"
  have h1: "?run = (fst ?run, snd ?run)" by simp
  have k: "getProjectKey exWorld ''/w'' () = ''/w''" by (simp add: exWorld_def)
  have c: "cached exState ''/w'' = exBaseline" by (simp add: cached_def exState_def)
  have mp: "matchedPaths exWorld ''/w'' () ?e exState = [''/w/A.txt'']"
    by (simp add: matchedPaths_def matched_def ex_defs)
  have ne: "''/elsewhere'' \<noteq> ''/w''" by simp
  have none: "recomputations exState (snd ?run) = 0"
    by (simp add: recomputations_def GetSyncDiff_def fastPaths_def ex_defs)
  note sc = store_changes[OF h1, unfolded k c mp]
  have others: "\<forall>k. k \<noteq> ''/w'' \<longrightarrow> syncLists (snd ?run) k = syncLists exState k"
    using sc by (rule conjunct1)
  have own: "(\<exists>N. exFunc exWorld ''/w'' () = Inr N \<and> recomputations exState (snd ?run) = 1 \<and>
        retErr (fst ?run) = None \<and> syncLists (snd ?run) ''/w'' = Some N) \<or>
    ((syncLists (snd ?run) ''/w'' = None) = (syncLists exState ''/w'' = None) \<and>
     refreshOf exWorld exBaseline (cached (snd ?run) ''/w'') \<and>
     (\<forall>k. map_of (cached (snd ?run) ''/w'') k =
        (if k \<in> set [''/w/A.txt''] then refreshAt exWorld k (map_of exBaseline k)
         else map_of exBaseline k)))"
    using sc by (rule conjunct1[OF conjunct2])
  have "\<not> (\<exists>N. exFunc exWorld ''/w'' () = Inr N \<and> recomputations exState (snd ?run) = 1 \<and>
        retErr (fst ?run) = None \<and> syncLists (snd ?run) ''/w'' = Some N)"
    using none by simp
  with own have rel: "refreshOf exWorld exBaseline (cached (snd ?run) ''/w'')"
    and entries: "\<forall>k. map_of (cached (snd ?run) ''/w'') k =
        (if k \<in> set [''/w/A.txt''] then refreshAt exWorld k (map_of exBaseline k)
         else map_of exBaseline k)"
    by blast+
  have st: "Stat exWorld ''/w/A.txt'' = Inr 20" by (simp add: exWorld_def)
  have a: "map_of (cached (snd ?run) ''/w'') ''/w/A.txt'' =
      Some \<lparr>Dest = [''/c/A.txt''], FileTime = 20, IsDirect = True\<rparr>"
    by (simp add: entries refreshAt_def exBaseline_def st)
  have b: "map_of (cached (snd ?run) ''/w'') ''/w/B.java'' =
      Some \<lparr>Dest = [''/c/B.class''], FileTime = 10, IsDirect = False\<rparr>"
    by (simp add: entries exBaseline_def)
  have untouched: "syncLists (snd ?run) ''/elsewhere'' = syncLists exState ''/elsewhere''"
    by (rule others[rule_format, OF ne])
  from none mp rel a b untouched show ?thesis by simp
qed

text \<open>
  A call served by the direct fast path: \<open>getSyncMapFunc\<close> is not called, nothing is
  stored, and yet the map the store holds has changed, in the file time of \<open>/w/A.txt\<close>.
\<close>

theorem store_changes_counterexample:
  "GetSyncDiff exFunc exWorld ''/w'' ()
      \<lparr>Added = [], Modified = [''A.txt''], Deleted = []\<rparr> exState =
     ((Some [(''/w/A.txt'', [''/c/A.txt''])], None, None),
      \<lparr>syncLists = [''/w'' \<mapsto>
         [(''/w/A.txt'', \<lparr>Dest = [''/c/A.txt''], FileTime = 20, IsDirect = True\<rparr>),
          (''/w/B.java'', \<lparr>Dest = [''/c/B.class''], FileTime = 10, IsDirect = False\<rparr>)]],
       effects = []\<rparr>) \<and>
   syncLists exState ''/w'' = Some
         [(''/w/A.txt'', \<lparr>Dest = [''/c/A.txt''], FileTime = 10, IsDirect = True\<rparr>),
          (''/w/B.java'', \<lparr>Dest = [''/c/B.class''], FileTime = 10, IsDirect = False\<rparr>)]"
  by (simp add: GetSyncDiff_def fastPaths_def ex_defs)

section \<open>The full recomputation\<close>

text \<open>
  What lines 120 to 144 compute. When \<open>GetSyncDiff\<close> reaches them with the value \<open>O'\<close>
  of \<open>currSyncMap\<close> and \<open>getSyncMapFunc\<close> returns the new map \<open>N\<close>, \<open>toCopy\<close> has the
  keys of \<open>N\<close> that are absent from \<open>O'\<close> or whose file time in \<open>N\<close> differs from the
  one in \<open>O'\<close>. \<open>O'\<close> is the map that was cached when the call began only when
  \<open>e.Added\<close> is not empty; otherwise the direct fast path may have refreshed file times
  in it before it gave up.
\<close>

lemma recompute_diff:
  assumes "fastPaths w workspace a e s = (Inr O', s1)"
    and "getSyncMapFunc w workspace a = Inr N"
    and "distinct (map fst N)"
  shows "\<exists>tc s'. GetSyncDiff getSyncMapFunc w workspace a e s = ((Some tc, None, None), s') \<and>
           cached s1 (getProjectKey w workspace a) = O' \<and>
           refreshOf w (cached s (getProjectKey w workspace a)) O' \<and>
           (Added e \<noteq> [] \<longrightarrow> O' = cached s (getProjectKey w workspace a)) \<and>
           cached s' (getProjectKey w workspace a) = N \<and>
           distinct (map fst tc) \<and>
           (\<forall>k. map_of tc k =
              (case map_of N k of
                 None \<Rightarrow> None
               | Some v \<Rightarrow>
                   (case map_of O' k of
                      None \<Rightarrow> Some (Dest v)
                    | Some c \<Rightarrow> if FileTime v \<noteq> FileTime c then Some (Dest v) else None)))"
proof -
  have old: "cached s1 (getProjectKey w workspace a) = O'"
    using assms(1) by (rule fastPaths_Inr_cached)
  have refreshed: "refreshOf w (cached s (getProjectKey w workspace a)) O'"
    using fastPaths_store[OF assms(1)] old by simp
  have skipped: "Added e \<noteq> [] \<longrightarrow> O' = cached s (getProjectKey w workspace a)"
    using assms(1) by (auto simp: fastPaths_def Let_def split: guard.splits if_splits)
  have run: "GetSyncDiff getSyncMapFunc w workspace a e s =
      recompute getSyncMapFunc w workspace a O' s1"
    using assms(1) by (simp add: GetSyncDiff_def)
  obtain s' where rec: "recompute getSyncMapFunc w workspace a O' s1 =
      ((Some (diffLoop N O' []), None, None), s')"
    and store: "syncLists s' (getProjectKey w workspace a) = Some N"
    using assms(2) by (simp add: recompute_def Let_def println_def)
  have "distinct (map fst (diffLoop N O' []))"
    by (rule diffLoop_distinct) simp
  moreover have "\<forall>k. map_of (diffLoop N O' []) k =
              (case map_of N k of
                 None \<Rightarrow> None
               | Some v \<Rightarrow>
                   (case map_of O' k of
                      None \<Rightarrow> Some (Dest v)
                    | Some c \<Rightarrow> if FileTime v \<noteq> FileTime c then Some (Dest v) else None))"
    by (auto simp: diffLoop_map_of[OF assms(3)] split: option.splits)
  moreover have "cached s' (getProjectKey w workspace a) = N"
    using store by (simp add: cached_def)
  ultimately show ?thesis
    using run rec old refreshed skipped by simp
qed

text \<open>
  Claim C1 says that after a full recomputation \<open>toCopy\<close> has exactly the keys of the new
  map \<open>N\<close> that are absent from the cached old map \<open>O\<close> or whose file time in \<open>N\<close>
  differs from the one in \<open>O\<close>. The code does not do that for this event: the cached
  old map has \<open>/w/A.txt\<close> with file time 10, the new map has it with file time 20, and
  the returned \<open>toCopy\<close> has no entry for \<open>/w/A.txt\<close>. The direct fast path matched
  \<open>A.txt\<close> and wrote its new file time into the cached map before it broke off at
  \<open>B.java\<close>, so the diff compared the new map with the refreshed one, as the printed
  \<open>curr\<close> shows; the modified file is synced neither by the fast path nor by the diff.
\<close>

theorem fallback_omits_refreshed_file:
  "syncLists exState ''/w'' = Some exBaseline \<and>
   map_of exBaseline ''/w/A.txt'' = Some \<lparr>Dest = [''/c/A.txt''], FileTime = 10, IsDirect = True\<rparr> \<and>
   exFunc exWorld ''/w'' () = Inr exNext \<and>
   map_of exNext ''/w/A.txt'' = Some \<lparr>Dest = [''/c/A.txt''], FileTime = 20, IsDirect = True\<rparr> \<and>
   GetSyncDiff exFunc exWorld ''/w'' ()
      \<lparr>Added = [], Modified = [''A.txt'', ''B.java''], Deleted = []\<rparr> exState =
     ((Some [(''/w/B.java'', [''/c/B.class''])], None, None),
      \<lparr>syncLists = [''/w'' \<mapsto> exNext],
       effects = [CalledGetSyncMapFunc,
         PrintlnMap ''curr''
           [(''/w/A.txt'', \<lparr>Dest = [''/c/A.txt''], FileTime = 20, IsDirect = True\<rparr>),
            (''/w/B.java'', \<lparr>Dest = [''/c/B.class''], FileTime = 10, IsDirect = False\<rparr>)],
         PrintlnMap ''next'' exNext]\<rparr>)"
  by (simp add: GetSyncDiff_def fastPaths_def recompute_def ex_defs)

section \<open>Running the diff twice\<close>

lemma diffLoop_same:
  "\<forall>(k, v)\<in>set N. \<exists>c. map_of O' k = Some c \<and> FileTime c = FileTime v \<Longrightarrow>
   diffLoop N O' acc = acc"
  by (induction N O' acc rule: diffLoop.induct) auto

lemma refreshOf_map_of:
  assumes "refreshOf w m m'" and "distinct (map fst m)" and "(k, v) \<in> set m"
  shows "\<exists>v'. map_of m' k = Some v' \<and> sameButTime w (k, v) (k, v')"
proof -
  from assms(3) obtain i where i: "i < length m" "m ! i = (k, v)"
    by (auto simp: in_set_conv_nth)
  from assms(1) have len: "length m' = length m" and rel: "sameButTime w (m ! i) (m' ! i)"
    using i(1) by (auto simp: refreshOf_def list_all2_conv_all_nth)
  obtain k' v' where kv: "m' ! i = (k', v')" by (cases "m' ! i")
  with rel i(2) have k': "k' = k" by (simp add: sameButTime_def)
  have "distinct (map fst m')"
    using refreshOf_keys[OF assms(1)] assms(2) by simp
  moreover have "(k, v') \<in> set m'"
    using kv k' i(1) len by (metis nth_mem)
  ultimately have "map_of m' k = Some v'" by simp
  with rel i(2) kv k' show ?thesis by auto
qed

lemma refreshOf_same_times:
  assumes "refreshOf w N O'" and "distinct (map fst N)"
    and "\<forall>(k, v)\<in>set N. Stat w k = Inr (FileTime v)"
  shows "\<forall>(k, v)\<in>set N. \<exists>c. map_of O' k = Some c \<and> FileTime c = FileTime v"
proof (intro ballI, clarify)
  fix k v assume kv: "(k, v) \<in> set N"
  from refreshOf_map_of[OF assms(1,2) kv] obtain c where
    c: "map_of O' k = Some c" "sameButTime w (k, v) (k, c)" by blast
  from assms(3) kv have "Stat w k = Inr (FileTime v)" by auto
  with c(2) have "FileTime c = FileTime v" by (auto simp: sameButTime_def)
  with c(1) show "\<exists>c. map_of O' k = Some c \<and> FileTime c = FileTime v" by simp
qed

text \<open>
  Claim C6, as the code has it. Let a first run of \<open>GetSyncDiff\<close> go through the full
  recomputation and store the map \<open>N\<close>, whose file times are those on disk. A second
  run, for any event, in the same world (the same files on disk, and the same answer \<open>N\<close>
  of \<open>getSyncMapFunc\<close>) that goes through the full recomputation too returns an empty
  \<open>toCopy\<close>.
\<close>

theorem second_recomputation_empty:
  assumes "fastPaths w workspace a e1 s0 = (Inr O1, t1)"
    and "getSyncMapFunc w workspace a = Inr N"
    and "distinct (map fst N)"
    and "\<forall>(k, v)\<in>set N. Stat w k = Inr (FileTime v)"
    and "fastPaths w workspace a e2 (snd (GetSyncDiff getSyncMapFunc w workspace a e1 s0)) = (Inr O2, t2)"
  shows "fst (GetSyncDiff getSyncMapFunc w workspace a e2
           (snd (GetSyncDiff getSyncMapFunc w workspace a e1 s0))) = (Some [], None, None)"
proof -
  let ?key = "getProjectKey w workspace a"
  let ?s1 = "snd (GetSyncDiff getSyncMapFunc w workspace a e1 s0)"
  have "?s1 = snd (recompute getSyncMapFunc w workspace a O1 t1)"
    using assms(1) by (simp add: GetSyncDiff_def)
  then have "syncLists ?s1 ?key = Some N"
    using recompute_Inr_state[where f = getSyncMapFunc, OF assms(2), of O1 t1] by simp
  then have base: "cached ?s1 ?key = N" by (simp add: cached_def)
  have "refreshOf w (cached ?s1 ?key) (cached t2 ?key)"
    using fastPaths_store[OF assms(5)] by simp
  then have "refreshOf w N O2"
    using base fastPaths_Inr_cached[OF assms(5)] by simp
  then have "\<forall>(k, v)\<in>set N. \<exists>c. map_of O2 k = Some c \<and> FileTime c = FileTime v"
    using assms(3,4) by (rule refreshOf_same_times)
  then have "diffLoop N O2 [] = []" by (rule diffLoop_same)
  then show ?thesis
    using assms(5) recompute_Inr[where f = getSyncMapFunc, OF assms(2), of O2 t2]
    by (simp add: GetSyncDiff_def)
qed

theorem second_recomputation_empty_witness:
  "fst (GetSyncDiff exFunc exWorld ''/w'' () \<lparr>Added = [], Modified = [''B.java''], Deleted = []\<rparr>
     (snd (GetSyncDiff exFunc exWorld ''/w'' () \<lparr>Added = [], Modified = [''B.java''], Deleted = []\<rparr>
        exState))) = (Some [], None, None) \<and>
   fst (GetSyncDiff exFunc exWorld ''/w'' () \<lparr>Added = [], Modified = [''B.java''], Deleted = []\<rparr>
        exState) = (Some [(''/w/A.txt'', [''/c/A.txt'']), (''/w/B.java'', [''/c/B.class''])], None, None)"
proof -
  let ?e = "\<lparr>Added = [], Modified = [''B.java''], Deleted = []\<rparr>"
  let ?s1 = "snd (GetSyncDiff exFunc exWorld ''/w'' () ?e exState)"
  have h1: "fastPaths exWorld ''/w'' () ?e exState =
      (Inr exBaseline, snd (fastPaths exWorld ''/w'' () ?e exState))"
    by (simp add: fastPaths_def ex_defs)
  have h2: "exFunc exWorld ''/w'' () = Inr exNext" by (simp add: exFunc_def)
  have h3: "distinct (map fst exNext)" by (simp add: exNext_def)
  have h4: "\<forall>(k, v)\<in>set exNext. Stat exWorld k = Inr (FileTime v)"
    by (simp add: exNext_def exWorld_def)
  have s1: "?s1 = \<lparr>syncLists = [''/w'' \<mapsto> exNext],
       effects = [CalledGetSyncMapFunc, PrintlnMap ''curr'' exBaseline, PrintlnMap ''next'' exNext]\<rparr>"
    by (simp add: GetSyncDiff_def fastPaths_def recompute_def ex_defs)
  have h5: "fastPaths exWorld ''/w'' () ?e ?s1 = (Inr exNext, snd (fastPaths exWorld ''/w'' () ?e ?s1))"
    unfolding s1 by (simp add: fastPaths_def ex_defs)
  have first: "fst (GetSyncDiff exFunc exWorld ''/w'' () ?e exState) =
      (Some [(''/w/A.txt'', [''/c/A.txt'']), (''/w/B.java'', [''/c/B.class''])], None, None)"
    by (simp add: GetSyncDiff_def fastPaths_def recompute_def ex_defs)
  from second_recomputation_empty[where getSyncMapFunc = exFunc, OF h1 h2 h3 h4 h5] first
  show ?thesis by simp
qed

text \<open>
  The event of the specification's first scenario, run twice with nothing changed on disk
  in between: both runs are served by the direct fast path, and the second returns the
  modified path again.
\<close>

theorem second_run_counterexample:
  "fst (GetSyncDiff exFunc exWorld ''/w'' () \<lparr>Added = [], Modified = [''A.txt''], Deleted = []\<rparr>
     (snd (GetSyncDiff exFunc exWorld ''/w'' () \<lparr>Added = [], Modified = [''A.txt''], Deleted = []\<rparr>
        exState))) = (Some [(''/w/A.txt'', [''/c/A.txt''])], None, None)"
  by (simp add: GetSyncDiff_def fastPaths_def ex_defs)

section \<open>The destinations of the stored entries\<close>

lemma set_update_subset: "set (AList.update k v al) \<subseteq> insert (k, v) (set al)"
  by (induction al) auto

lemma singleDest_update:
  "singleDest m \<Longrightarrow> singleDest (AList.update k \<lparr>Dest = [d], FileTime = t, IsDirect = b\<rparr> m)"
  unfolding singleDest_def using set_update_subset[of k "\<lparr>Dest = [d], FileTime = t, IsDirect = b\<rparr>" m]
  by auto

lemma statEntries_singleDest:
  "statEntries w direct es sm = Inr sm' \<Longrightarrow> singleDest sm \<Longrightarrow> singleDest sm'"
proof (induction es arbitrary: sm)
  case Nil
  then show ?case by simp
next
  case (Cons e es)
  then show ?case
    by (auto split: sum.splits intro: singleDest_update)
qed

lemma getSyncMapFromSystem_singleDest:
  assumes "getSyncMapFromSystem w cmd = Inr sm"
  shows "singleDest sm"
proof -
  from assms have "\<exists>(jsm :: JSONSyncMap) sm1. statEntries w True (Direct jsm) [] = Inr sm1 \<and>
      statEntries w False (Generated jsm) sm1 = Inr sm"
    by (auto simp: getSyncMapFromSystem_def Let_def split: sum.splits option.splits)
  then obtain jsm :: JSONSyncMap and sm1 where
    d: "statEntries w True (Direct jsm) [] = Inr sm1" and
    g: "statEntries w False (Generated jsm) sm1 = Inr sm"
    by blast
  have "singleDest []" by (simp add: singleDest_def)
  with d have "singleDest sm1" by (rule statEntries_singleDest)
  with g show ?thesis by (rule statEntries_singleDest)
qed

lemma getSyncMap_singleDest: "getSyncMap w workspace a = Inr sm \<Longrightarrow> singleDest sm"
  by (auto simp: getSyncMap_def split: sum.splits dest: getSyncMapFromSystem_singleDest)

lemma refreshOf_singleDest:
  assumes "refreshOf w m m'" and "singleDest m"
  shows "singleDest m'"
  unfolding singleDest_def
proof (intro ballI, clarify)
  fix k v assume "(k, v) \<in> set m'"
  then obtain i where i: "i < length m'" "m' ! i = (k, v)"
    by (auto simp: in_set_conv_nth)
  from assms(1) i(1) have len: "i < length m" and rel: "sameButTime w (m ! i) (m' ! i)"
    by (auto simp: refreshOf_def list_all2_conv_all_nth)
  from len have "m ! i \<in> set m" by simp
  with assms(2) obtain d where "Dest (snd (m ! i)) = [d]"
    by (auto simp: singleDest_def)
  with rel i(2) show "\<exists>d. Dest v = [d]" by (simp add: sameButTime_def)
qed

lemma InitSync_singleDest:
  assumes "storeSingleDest s"
  shows "storeSingleDest (snd (InitSync getSyncMap w workspace a s))"
proof (cases "getSyncMap w workspace a")
  case (Inl x)
  with assms show ?thesis
    by (simp add: InitSync_def Let_def println_def storeSingleDest_def)
next
  case (Inr sm)
  then have "singleDest sm" by (rule getSyncMap_singleDest)
  with assms Inr show ?thesis
    by (simp add: InitSync_def Let_def println_def storeSingleDest_def)
qed

lemma fastPaths_singleDest:
  assumes "fastPaths w workspace a e s = (x, s1)" and "storeSingleDest s"
  shows "storeSingleDest s1"
  unfolding storeSingleDest_def
proof (intro allI impI)
  fix key m assume m: "syncLists s1 key = Some m"
  note store = fastPaths_store[OF assms(1)]
  show "singleDest m"
  proof (cases "key = getProjectKey w workspace a")
    case False
    with store m assms(2) show ?thesis by (simp add: storeSingleDest_def)
  next
    case True
    with store m obtain m0 where m0: "syncLists s key = Some m0" by auto
    with assms(2) have "singleDest m0" by (auto simp: storeSingleDest_def)
    moreover have "refreshOf w m0 m"
      using store m m0 True by (simp add: cached_def)
    ultimately show ?thesis by (rule refreshOf_singleDest[rotated])
  qed
qed

lemma GetSyncDiff_singleDest:
  assumes "storeSingleDest s"
  shows "storeSingleDest (snd (GetSyncDiff getSyncMap w workspace a e s))"
proof -
  obtain x s1 where fp: "fastPaths w workspace a e s = (x, s1)"
    by (cases "fastPaths w workspace a e s")
  have s1: "storeSingleDest s1" using fp assms by (rule fastPaths_singleDest)
  show ?thesis
  proof (cases x)
    case (Inl r)
    with fp s1 show ?thesis by (simp add: GetSyncDiff_def)
  next
    case c: (Inr c)
    show ?thesis
    proof (cases "getSyncMap w workspace a")
      case (Inl y)
      with fp c s1 show ?thesis
        using recompute_Inl[where f = getSyncMap, OF Inl, of c s1]
        by (simp add: GetSyncDiff_def storeSingleDest_def println_def)
    next
      case (Inr N)
      then have "singleDest N" by (rule getSyncMap_singleDest)
      with fp c s1 show ?thesis
        using recompute_Inr_state[where f = getSyncMap, OF Inr, of c s1]
        by (simp add: GetSyncDiff_def storeSingleDest_def)
    qed
  qed
qed

lemma reachable_singleDest: "reachable W s \<Longrightarrow> storeSingleDest s"
proof (induction rule: reachable.induct)
  case start
  show ?case by (simp add: storeSingleDest_def initial_def)
next
  case (afterInitSync s w workspace a)
  then show ?case by (simp add: InitSync_singleDest)
next
  case (afterGetSyncDiff s w workspace a e)
  then show ?case by (simp add: GetSyncDiff_singleDest)
qed

text \<open>
  Claim C9. Every entry that \<open>getSyncMapFromSystem\<close> builds from the interpreter's output
  has exactly one destination, and in every state that \<open>InitSync\<close> and \<open>GetSyncDiff\<close>
  can reach from the empty store every entry of every stored sync map has exactly one
  destination; none has an empty \<open>Dest\<close>.
\<close>

theorem dest_never_empty:
  assumes "reachable W s" and "syncLists s key = Some m" and "(k, v) \<in> set m"
  shows "(\<exists>d. Dest v = [d]) \<and> Dest v \<noteq> [] \<and>
         (getSyncMapFromSystem w cmd = Inr sm \<longrightarrow> (\<forall>(k', v')\<in>set sm. \<exists>d. Dest v' = [d]))"
proof -
  from assms(1) have "storeSingleDest s" by (rule reachable_singleDest)
  with assms(2) have "singleDest m" by (simp add: storeSingleDest_def)
  with assms(3) obtain d where "Dest v = [d]"
    unfolding singleDest_def by blast
  moreover have "getSyncMapFromSystem w cmd = Inr sm \<longrightarrow> (\<forall>(k', v')\<in>set sm. \<exists>d. Dest v' = [d])"
    using getSyncMapFromSystem_singleDest[of w cmd sm] by (simp add: singleDest_def)
  ultimately show ?thesis by simp
qed

lemma getSyncMap_exWorld: "getSyncMap exWorld ''/w'' () = Inr exNext"
  by (simp add: getSyncMap_def getSyncMapCommand_def getSyncMapFromSystem_def exWorld_def
      exStdout_def exPayload_def matchHere_def matchNewline_def matchLF_def matchGroup_def
      LF_def CR_def quoted_def jsonEntry_def exJSON_def exNext_def)

theorem dest_never_empty_witness:
  "reachable (UNIV :: (unit, string) world set)
     (snd (InitSync getSyncMap exWorld ''/w'' () initial)) \<and>
   syncLists (snd (InitSync getSyncMap exWorld ''/w'' () initial)) ''/w'' = Some exNext \<and>
   (\<exists>d. Dest \<lparr>Dest = [''/c/A.txt''], FileTime = 20, IsDirect = True\<rparr> = [d]) \<and>
   Dest \<lparr>Dest = [''/c/A.txt''], FileTime = 20, IsDirect = True\<rparr> \<noteq> []"
proof -
  let ?s = "snd (InitSync getSyncMap exWorld ''/w'' () initial)"
  have h1: "reachable (UNIV :: (unit, string) world set) ?s"
    by (rule reachable.afterInitSync[OF reachable.start]) simp
  have key: "getProjectKey exWorld ''/w'' () = ''/w''" by (simp add: exWorld_def)
  have h2: "syncLists ?s ''/w'' = Some exNext"
    by (simp add: InitSync_def getSyncMap_exWorld println_def initial_def key)
  have h3: "(''/w/A.txt'', \<lparr>Dest = [''/c/A.txt''], FileTime = 20, IsDirect = True\<rparr>) \<in> set exNext"
    by (simp add: exNext_def)
  from dest_never_empty[OF h1 h2 h3] h1 h2 show ?thesis by blast
qed

section \<open>The regular expression\<close>

lemma stripPrefix_Some: "stripPrefix p s = Some r \<longleftrightarrow> s = p @ r"
  by (induction p s rule: stripPrefix.induct) auto

lemma stripPrefix_append: "stripPrefix p (p @ r) = Some r"
  by (simp add: stripPrefix_Some)

lemma uptoLast_None: "uptoLast c xs = None \<longleftrightarrow> c \<notin> set xs"
  by (induction xs) (auto split: option.splits)

lemma uptoLast_Some:
  "uptoLast c xs = Some r \<Longrightarrow> \<exists>body post. r = body @ [c] \<and> xs = r @ post"
proof (induction xs arbitrary: r)
  case Nil
  then show ?case by simp
next
  case (Cons x xs)
  show ?case
  proof (cases "uptoLast c xs")
    case None
    with Cons.prems have "x = c" "r = [x]" by (auto split: if_splits)
    then show ?thesis by simp
  next
    case (Some r')
    with Cons.prems have r: "r = x # r'" by simp
    from Cons.IH[OF Some] obtain body post where "r' = body @ [c]" "xs = r' @ post" by blast
    with r have "r = (x # body) @ [c] \<and> x # xs = r @ post" by simp
    then show ?thesis by blast
  qed
qed

lemma matchGroup_Some:
  assumes "matchGroup s = Some g"
  shows "\<exists>body post. s = ''{'' @ body @ ''}'' @ post \<and> LF \<notin> set body \<and> g = ''{'' @ body @ ''}''"
proof -
  from assms obtain rest r where s: "s = CHR ''{'' # rest"
    and r: "uptoLast (CHR ''}'') (takeWhile (\<lambda>x. x \<noteq> LF) rest) = Some r"
    and g: "g = CHR ''{'' # r"
    by (auto simp: matchGroup_def split: list.splits if_splits)
  from uptoLast_Some[OF r] obtain body post where
    b: "r = body @ ''}''" "takeWhile (\<lambda>x. x \<noteq> LF) rest = r @ post" by auto
  have "set body \<subseteq> set (takeWhile (\<lambda>x. x \<noteq> LF) rest)" using b by auto
  then have nolf: "LF \<notin> set body" by (auto dest: set_takeWhileD)
  have "rest = takeWhile (\<lambda>x. x \<noteq> LF) rest @ dropWhile (\<lambda>x. x \<noteq> LF) rest" by simp
  with b have "rest = body @ ''}'' @ (post @ dropWhile (\<lambda>x. x \<noteq> LF) rest)" by simp
  with s g b(1) nolf show ?thesis by auto
qed

lemma matchGroup_complete:
  assumes "LF \<notin> set body"
  shows "matchGroup (''{'' @ body @ ''}'' @ post) \<noteq> None"
proof -
  have "takeWhile (\<lambda>x. x \<noteq> LF) (body @ ''}'' @ post) =
      body @ takeWhile (\<lambda>x. x \<noteq> LF) (''}'' @ post)"
    by (rule takeWhile_append2) (use assms in auto)
  moreover have "CHR ''}'' \<noteq> LF" by (simp add: LF_def)
  ultimately have "CHR ''}'' \<in> set (takeWhile (\<lambda>x. x \<noteq> LF) (body @ ''}'' @ post))"
    by simp
  then have "uptoLast (CHR ''}'') (takeWhile (\<lambda>x. x \<noteq> LF) (body @ ''}'' @ post)) \<noteq> None"
    by (simp add: uptoLast_None)
  then show ?thesis by (auto simp: matchGroup_def)
qed

lemma matchNewline_Some:
  assumes "matchNewline s = Some g"
  shows "\<exists>eol rest. s = eol @ rest \<and> (eol = [LF] \<or> eol = [CR, LF]) \<and> matchGroup rest = Some g"
proof -
  from assms consider
    (crlf) r where "s = CR # LF # r" "matchGroup r = Some g"
    | (lf) r where "s = LF # r" "matchGroup r = Some g"
    by (auto simp: matchNewline_def matchLF_def split: list.splits if_splits option.splits)
  then show ?thesis
  proof cases
    case crlf
    then have "s = [CR, LF] @ r" by simp
    with crlf(2) show ?thesis by blast
  next
    case lf
    then have "s = [LF] @ r" by simp
    with lf(2) show ?thesis by blast
  qed
qed

lemma matchNewline_complete:
  assumes "eol = [LF] \<or> eol = [CR, LF]" and "matchGroup rest \<noteq> None"
  shows "matchNewline (eol @ rest) \<noteq> None"
  using assms by (auto simp: matchNewline_def matchLF_def LF_def CR_def)

lemma matchHere_Some:
  assumes "matchHere s = Some g"
  shows "\<exists>suffix eol body post.
           s = ''BEGIN JIB JSON'' @ suffix @ eol @ ''{'' @ body @ ''}'' @ post \<and>
           (suffix = [] \<or> suffix = '': SYNCMAP/1'') \<and>
           (eol = [LF] \<or> eol = [CR, LF]) \<and> LF \<notin> set body \<and> g = ''{'' @ body @ ''}''"
proof -
  from assms obtain r where r: "stripPrefix ''BEGIN JIB JSON'' s = Some r"
    by (auto simp: matchHere_def split: option.splits)
  then have s: "s = ''BEGIN JIB JSON'' @ r" by (simp only: stripPrefix_Some)
  from assms r consider
    (long) r' where "stripPrefix '': SYNCMAP/1'' r = Some r'" "matchNewline r' = Some g"
    | (short) "matchNewline r = Some g"
    by (auto simp: matchHere_def split: option.splits)
  then obtain suffix r' where suf: "r = suffix @ r'" "suffix = [] \<or> suffix = '': SYNCMAP/1''"
    and nl: "matchNewline r' = Some g"
  proof cases
    case long
    from long(1) have "r = '': SYNCMAP/1'' @ r'" by (simp only: stripPrefix_Some)
    with long(2) that show ?thesis by blast
  next
    case short
    have "r = [] @ r" by simp
    with short that show ?thesis by blast
  qed
  from matchNewline_Some[OF nl] obtain eol rest where
    eol: "r' = eol @ rest" "eol = [LF] \<or> eol = [CR, LF]" and grp: "matchGroup rest = Some g"
    by blast
  from matchGroup_Some[OF grp] obtain body post where
    "rest = ''{'' @ body @ ''}'' @ post" "LF \<notin> set body" "g = ''{'' @ body @ ''}''"
    by blast
  with s suf eol show ?thesis by blast
qed

lemma matchHere_complete:
  assumes "suffix = [] \<or> suffix = '': SYNCMAP/1''"
    and "eol = [LF] \<or> eol = [CR, LF]" and "LF \<notin> set body"
  shows "matchHere (''BEGIN JIB JSON'' @ suffix @ eol @ ''{'' @ body @ ''}'' @ post) \<noteq> None"
proof -
  let ?rest = "''{'' @ body @ ''}'' @ post"
  have nl: "matchNewline (eol @ ?rest) \<noteq> None"
    using assms(2) matchGroup_complete[OF assms(3)] by (rule matchNewline_complete)
  have sp: "stripPrefix ''BEGIN JIB JSON'' (''BEGIN JIB JSON'' @ suffix @ eol @ ?rest) =
      Some (suffix @ eol @ ?rest)"
    by (rule stripPrefix_append)
  from assms(1) show ?thesis
  proof
    assume "suffix = []"
    with nl sp show ?thesis
      unfolding matchHere_def by (auto split: option.splits)
  next
    assume suf: "suffix = '': SYNCMAP/1''"
    have "stripPrefix '': SYNCMAP/1'' (suffix @ eol @ ?rest) = Some (eol @ ?rest)"
      unfolding suf by (rule stripPrefix_append)
    with nl sp show ?thesis
      unfolding matchHere_def by (auto split: option.splits)
  qed
qed

lemma FindSubmatch_Some:
  "FindSubmatch s = Some g \<Longrightarrow> \<exists>pre s'. s = pre @ s' \<and> matchHere s' = Some g"
proof (induction s)
  case Nil
  then show ?case by simp
next
  case (Cons c cs)
  show ?case
  proof (cases "matchHere (c # cs)")
    case (Some g')
    with Cons.prems have "matchHere (c # cs) = Some g" by simp
    then have "c # cs = [] @ (c # cs) \<and> matchHere (c # cs) = Some g" by simp
    then show ?thesis by blast
  next
    case None
    with Cons.prems have "FindSubmatch cs = Some g" by simp
    from Cons.IH[OF this] obtain pre s' where "cs = pre @ s'" "matchHere s' = Some g" by blast
    then have "c # cs = (c # pre) @ s' \<and> matchHere s' = Some g" by simp
    then show ?thesis by blast
  qed
qed

lemma FindSubmatch_complete: "matchHere s' \<noteq> None \<Longrightarrow> FindSubmatch (pre @ s') \<noteq> None"
proof (induction pre)
  case Nil
  then show ?case by (cases s') (auto split: option.splits)
next
  case (Cons c pre)
  then show ?case by (auto split: option.splits)
qed

lemma FindSubmatch_hasSyncData: "FindSubmatch out \<noteq> None \<longleftrightarrow> hasSyncData out"
proof
  assume "FindSubmatch out \<noteq> None"
  then obtain g where "FindSubmatch out = Some g" by auto
  from FindSubmatch_Some[OF this] obtain pre s' where
    out: "out = pre @ s'" and "matchHere s' = Some g" by blast
  from matchHere_Some[OF this(2)] out show "hasSyncData out"
    unfolding hasSyncData_def by blast
next
  assume "hasSyncData out"
  then obtain pre suffix eol body post where
    out: "out = pre @ ''BEGIN JIB JSON'' @ suffix @ eol @ ''{'' @ body @ ''}'' @ post"
    and c: "suffix = [] \<or> suffix = '': SYNCMAP/1''" "eol = [LF] \<or> eol = [CR, LF]" "LF \<notin> set body"
    unfolding hasSyncData_def by blast
  from matchHere_complete[OF c] show "FindSubmatch out \<noteq> None"
    unfolding out by (rule FindSubmatch_complete)
qed

lemma FindSubmatch_group:
  assumes "FindSubmatch out = Some g"
  shows "\<exists>body. g = ''{'' @ body @ ''}'' \<and> LF \<notin> set body"
proof -
  from FindSubmatch_Some[OF assms] obtain pre s' where
    "out = pre @ s'" and "matchHere s' = Some g" by blast
  from matchHere_Some[OF this(2)] show ?thesis by blast
qed


section \<open>The sync map of the interpreter's output\<close>

lemma find_snoc:
  "find P (xs @ [y]) = (case find P xs of Some x \<Rightarrow> Some x | None \<Rightarrow> if P y then Some y else None)"
  by (induction xs) auto

lemma lastFor_Cons:
  "lastFor k (e # es) =
     (case lastFor k es of Some e' \<Rightarrow> Some e' | None \<Rightarrow> if Src e = k then Some e else None)"
  by (simp add: lastFor_def find_snoc)

lemma statEntries_Inl:
  "(\<exists>x. statEntries w direct es sm = Inl x) \<longleftrightarrow> (\<exists>e\<in>set es. \<exists>x. Stat w (Src e) = Inl x)"
proof (induction es arbitrary: sm)
  case Nil
  then show ?case by simp
next
  case (Cons e es)
  show ?case
  proof (cases "Stat w (Src e)")
    case (Inl x)
    then show ?thesis by auto
  next
    case (Inr t)
    with Cons.IH show ?thesis by auto
  qed
qed

text \<open>After the loop, a source has the entry written for it last; other paths keep theirs.\<close>

lemma statEntries_map_of:
  "statEntries w direct es sm = Inr sm' \<Longrightarrow>
   (case lastFor k es of
      None \<Rightarrow> map_of sm' k = map_of sm k
    | Some e \<Rightarrow> \<exists>t. Stat w k = Inr t \<and>
        map_of sm' k = Some \<lparr>Dest = [JDest e], FileTime = t, IsDirect = direct\<rparr>)"
proof (induction es arbitrary: sm)
  case Nil
  then show ?case by (simp add: lastFor_def)
next
  case (Cons e es)
  from Cons.prems obtain t where t: "Stat w (Src e) = Inr t"
    and rest: "statEntries w direct es
        (AList.update (Src e) \<lparr>Dest = [JDest e], FileTime = t, IsDirect = direct\<rparr> sm) = Inr sm'"
    by (auto split: sum.splits)
  note IH = Cons.IH[OF rest]
  show ?case
  proof (cases "lastFor k es")
    case (Some e')
    with IH show ?thesis by (simp add: lastFor_Cons)
  next
    case None
    with IH t show ?thesis by (auto simp: lastFor_Cons update_conv')
  qed
qed

text \<open>
  Claim C10, as the code has it. Given the standard output \<open>out\<close> of the subprocess, \<open>getSyncMapFromSystem\<close>
  returns an error exactly when \<open>out\<close> has no marker line followed by a line with a
  brace-delimited payload, or \<open>json.Unmarshal\<close> rejects the payload with its backslashes
  doubled, or \<open>os.Stat\<close> fails for the source of a listed entry. Otherwise it returns a
  sync map that has, for every source listed, the entry written for it last: an entry
  of the generated list gives \<open>IsDirect = False\<close>, an entry of the direct list (for a
  source that the generated list does not name) gives \<open>IsDirect = True\<close>; each has the one
  destination of that entry and the file time \<open>os.Stat\<close> reports; no other path has
  an entry.
\<close>

theorem getSyncMapFromSystem_result:
  assumes "RunCmdOut w cmd = Inr out"
  shows "((\<exists>x. getSyncMapFromSystem w cmd = Inl x) =
            (\<not> hasSyncData out \<or>
             (\<exists>g x. FindSubmatch out = Some g \<and> Unmarshal w (replaceBackslashes g) = Inl x) \<or>
             (\<exists>g jsm. FindSubmatch out = Some g \<and> Unmarshal w (replaceBackslashes g) = Inr jsm \<and>
                (\<exists>e\<in>set (Direct jsm @ Generated jsm). \<exists>x. Stat w (Src e) = Inl x)))) \<and>
         (getSyncMapFromSystem w cmd = Inr sm \<longrightarrow>
            (\<exists>g jsm. FindSubmatch out = Some g \<and>
               (\<exists>body. g = ''{'' @ body @ ''}'' \<and> LF \<notin> set body) \<and>
               Unmarshal w (replaceBackslashes g) = Inr jsm \<and>
               (\<forall>k. case lastFor k (Generated jsm) of
                      Some ge \<Rightarrow> \<exists>t. Stat w k = Inr t \<and>
                        map_of sm k = Some \<lparr>Dest = [JDest ge], FileTime = t, IsDirect = False\<rparr>
                    | None \<Rightarrow>
                        (case lastFor k (Direct jsm) of
                           Some de \<Rightarrow> \<exists>t. Stat w k = Inr t \<and>
                             map_of sm k = Some \<lparr>Dest = [JDest de], FileTime = t, IsDirect = True\<rparr>
                         | None \<Rightarrow> map_of sm k = None))))"
proof (cases "FindSubmatch out")
  case None
  then have "\<not> hasSyncData out" using FindSubmatch_hasSyncData[of out] by simp
  with None assms show ?thesis by (simp add: getSyncMapFromSystem_def)
next
  case (Some g)
  then have has: "hasSyncData out" using FindSubmatch_hasSyncData[of out] by simp
  show ?thesis
  proof (cases "Unmarshal w (replaceBackslashes g)")
    case (Inl x)
    with Some assms has show ?thesis by (simp add: getSyncMapFromSystem_def)
  next
    case (Inr jsm)
    have run: "getSyncMapFromSystem w cmd =
        (case statEntries w True (Direct jsm) [] of
           Inl x \<Rightarrow> Inl x
         | Inr sm1 \<Rightarrow> statEntries w False (Generated jsm) sm1)"
      using assms Some Inr by (simp add: getSyncMapFromSystem_def)
    show ?thesis
    proof (cases "statEntries w True (Direct jsm) []")
      case d: (Inl x)
      then have "\<exists>e\<in>set (Direct jsm). \<exists>x. Stat w (Src e) = Inl x"
        using statEntries_Inl[of w True "Direct jsm" "[]"] by blast
      with run d Some Inr show ?thesis by auto
    next
      case d: (Inr sm1)
      then have dOK: "\<not> (\<exists>e\<in>set (Direct jsm). \<exists>x. Stat w (Src e) = Inl x)"
        using statEntries_Inl[of w True "Direct jsm" "[]"] by auto
      from run d have run': "getSyncMapFromSystem w cmd = statEntries w False (Generated jsm) sm1"
        by simp
      show ?thesis
      proof (cases "statEntries w False (Generated jsm) sm1")
        case g1: (Inl x)
        then have "\<exists>e\<in>set (Generated jsm). \<exists>x. Stat w (Src e) = Inl x"
          using statEntries_Inl[of w False "Generated jsm" sm1] by blast
        with run' g1 Some Inr show ?thesis by auto
      next
        case g1: (Inr sm2)
        then have gOK: "\<not> (\<exists>e\<in>set (Generated jsm). \<exists>x. Stat w (Src e) = Inl x)"
          using statEntries_Inl[of w False "Generated jsm" sm1] by auto
        have entries: "case lastFor k (Generated jsm) of
                      Some ge \<Rightarrow> \<exists>t. Stat w k = Inr t \<and>
                        map_of sm2 k = Some \<lparr>Dest = [JDest ge], FileTime = t, IsDirect = False\<rparr>
                    | None \<Rightarrow>
                        (case lastFor k (Direct jsm) of
                           Some de \<Rightarrow> \<exists>t. Stat w k = Inr t \<and>
                             map_of sm2 k = Some \<lparr>Dest = [JDest de], FileTime = t, IsDirect = True\<rparr>
                         | None \<Rightarrow> map_of sm2 k = None)" for k
          using statEntries_map_of[OF d, of k] statEntries_map_of[OF g1, of k]
          by (auto split: option.splits)
        have left: "\<not> (\<exists>x. getSyncMapFromSystem w cmd = Inl x)"
          using run' g1 by simp
        have right: "\<not> (\<not> hasSyncData out \<or>
             (\<exists>g x. FindSubmatch out = Some g \<and> Unmarshal w (replaceBackslashes g) = Inl x) \<or>
             (\<exists>g jsm. FindSubmatch out = Some g \<and> Unmarshal w (replaceBackslashes g) = Inr jsm \<and>
                (\<exists>e\<in>set (Direct jsm @ Generated jsm). \<exists>x. Stat w (Src e) = Inl x)))"
          using has Some Inr dOK gOK by auto
        have succ: "getSyncMapFromSystem w cmd = Inr sm \<longrightarrow>
            (\<exists>g jsm. FindSubmatch out = Some g \<and>
               (\<exists>body. g = ''{'' @ body @ ''}'' \<and> LF \<notin> set body) \<and>
               Unmarshal w (replaceBackslashes g) = Inr jsm \<and>
               (\<forall>k. case lastFor k (Generated jsm) of
                      Some ge \<Rightarrow> \<exists>t. Stat w k = Inr t \<and>
                        map_of sm k = Some \<lparr>Dest = [JDest ge], FileTime = t, IsDirect = False\<rparr>
                    | None \<Rightarrow>
                        (case lastFor k (Direct jsm) of
                           Some de \<Rightarrow> \<exists>t. Stat w k = Inr t \<and>
                             map_of sm k = Some \<lparr>Dest = [JDest de], FileTime = t, IsDirect = True\<rparr>
                         | None \<Rightarrow> map_of sm k = None)))"
        proof
          assume "getSyncMapFromSystem w cmd = Inr sm"
          with run' g1 have "sm = sm2" by simp
          with entries Some Inr FindSubmatch_group[OF Some] show "\<exists>g jsm. FindSubmatch out = Some g \<and>
               (\<exists>body. g = ''{'' @ body @ ''}'' \<and> LF \<notin> set body) \<and>
               Unmarshal w (replaceBackslashes g) = Inr jsm \<and>
               (\<forall>k. case lastFor k (Generated jsm) of
                      Some ge \<Rightarrow> \<exists>t. Stat w k = Inr t \<and>
                        map_of sm k = Some \<lparr>Dest = [JDest ge], FileTime = t, IsDirect = False\<rparr>
                    | None \<Rightarrow>
                        (case lastFor k (Direct jsm) of
                           Some de \<Rightarrow> \<exists>t. Stat w k = Inr t \<and>
                             map_of sm k = Some \<lparr>Dest = [JDest de], FileTime = t, IsDirect = True\<rparr>
                         | None \<Rightarrow> map_of sm k = None))"
            by blast
        qed
        from left right succ show ?thesis by blast
      qed
    qed
  qed
qed

text \<open>The definitions that running the regular expression on a text unfolds.\<close>

lemmas regex_defs = matchHere_def matchNewline_def matchLF_def matchGroup_def LF_def CR_def
  quoted_def jsonEntry_def

lemma getSyncMapFromSystem_exWorld:
  "getSyncMapFromSystem exWorld (SyncMapCommandMaven ''/w'' ()) = Inr exNext"
  by (simp add: getSyncMapFromSystem_def exWorld_def exStdout_def exPayload_def exJSON_def
      exNext_def regex_defs)

lemma FindSubmatch_exStdout: "FindSubmatch exStdout = Some exPayload"
  by (simp add: exStdout_def exPayload_def regex_defs)

lemma replaceBackslashes_exPayload: "replaceBackslashes exPayload = exPayload"
  by (simp add: exPayload_def quoted_def jsonEntry_def)

theorem getSyncMapFromSystem_result_witness:
  "getSyncMapFromSystem exWorld (SyncMapCommandMaven ''/w'' ()) = Inr exNext \<and>
   hasSyncData exStdout \<and>
   (\<exists>t. Stat exWorld ''/w/B.java'' = Inr t \<and>
      map_of exNext ''/w/B.java'' = Some \<lparr>Dest = [''/c/B.class''], FileTime = t, IsDirect = False\<rparr>)"
proof -
  let ?cmd = "SyncMapCommandMaven ''/w'' ()"
  have h: "RunCmdOut exWorld ?cmd = Inr exStdout" by (simp add: exWorld_def)
  note r = getSyncMapFromSystem_result[OF h, of exNext]
  have ok: "getSyncMapFromSystem exWorld ?cmd = Inr exNext"
    by (rule getSyncMapFromSystem_exWorld)
  then have "\<not> (\<exists>x. getSyncMapFromSystem exWorld ?cmd = Inl x)" by simp
  with r have has: "hasSyncData exStdout" by blast
  from r ok obtain g jsm where
    g: "FindSubmatch exStdout = Some g" and
    u: "Unmarshal exWorld (replaceBackslashes g) = Inr jsm" and
    m: "\<forall>k. case lastFor k (Generated jsm) of
                      Some ge \<Rightarrow> \<exists>t. Stat exWorld k = Inr t \<and>
                        map_of exNext k = Some \<lparr>Dest = [JDest ge], FileTime = t, IsDirect = False\<rparr>
                    | None \<Rightarrow>
                        (case lastFor k (Direct jsm) of
                           Some de \<Rightarrow> \<exists>t. Stat exWorld k = Inr t \<and>
                             map_of exNext k = Some \<lparr>Dest = [JDest de], FileTime = t, IsDirect = True\<rparr>
                         | None \<Rightarrow> map_of exNext k = None)"
    by blast
  from g have "g = exPayload" by (simp add: FindSubmatch_exStdout)
  with u have "jsm = exJSON" by (simp add: replaceBackslashes_exPayload exWorld_def)
  with m[rule_format, of "''/w/B.java''"]
  have "\<exists>t. Stat exWorld ''/w/B.java'' = Inr t \<and>
      map_of exNext ''/w/B.java'' = Some \<lparr>Dest = [''/c/B.class''], FileTime = t, IsDirect = False\<rparr>"
    by (simp add: exJSON_def lastFor_def)
  with ok has show ?thesis by blast
qed

text \<open>
  The interpreter's output lists \<open>/w/A.txt\<close> as a direct entry and as a generated
  entry. The second loop overwrites what the first wrote: the source of the direct entry
  has \<open>IsDirect = False\<close> in the sync map, and the destination of the generated entry.
\<close>

theorem getSyncMapFromSystem_counterexample:
  "RunCmdOut exOverlapWorld (SyncMapCommandMaven ''/w'' ()) =
     Inr (''BEGIN JIB JSON'' @ [CR, LF] @ exOverlapPayload) \<and>
   Unmarshal exOverlapWorld (replaceBackslashes exOverlapPayload) = Inr exOverlapJSON \<and>
   Direct exOverlapJSON = [\<lparr>Src = ''/w/A.txt'', JDest = ''/c/A.txt''\<rparr>] \<and>
   getSyncMapFromSystem exOverlapWorld (SyncMapCommandMaven ''/w'' ()) =
     Inr [(''/w/A.txt'', \<lparr>Dest = [''/c/A.class''], FileTime = 20, IsDirect = False\<rparr>)]"
  by (simp add: getSyncMapFromSystem_def exOverlapWorld_def exOverlapPayload_def exOverlapJSON_def
      exWorld_def regex_defs)

end
